theory Spec2Isabelle
  imports Complex_Main "HOL-Library.AList"
begin

section \<open>Pair features for link prediction: the graph store\<close>

text \<open>
  The notebook keeps the relationship graph in a \<^verbatim>\<open>networkx.Graph\<close>, whose state is the
  dictionary \<^verbatim>\<open>_adj\<close>: node \<open>\<mapsto>\<close> (neighbour \<open>\<mapsto>\<close> edge data). Python dictionaries keep
  insertion order and have unique keys, so the model is an association list from node ids
  to the list of the neighbour keys; edge data is never read by the notebook and is left out.
  Every exception that a call of the notebook can raise is a value of \<open>error\<close>.
\<close>

type_synonym node = int

type_synonym graph = "(node \<times> node list) list"

datatype error =
  NetworkXError | NetworkXNoPath | NodeNotFound | ValueError | ZeroDivisionError

text \<open>\<^verbatim>\<open>n in G\<close>\<close>

definition has_node :: "graph \<Rightarrow> node \<Rightarrow> bool" where
  "has_node G n = (map_of G n \<noteq> None)"

text \<open>\<^verbatim>\<open>G.neighbors(n)\<close>: the keys of \<^verbatim>\<open>_adj[n]\<close>; \<^verbatim>\<open>NetworkXError\<close> when \<open>n\<close> is not a node.\<close>

definition neighbors :: "graph \<Rightarrow> node \<Rightarrow> error + node list" where
  "neighbors G n = (case map_of G n of None \<Rightarrow> Inl NetworkXError | Some ns \<Rightarrow> Inr ns)"

text \<open>
  \<^verbatim>\<open>G.degree(n)\<close> for a node: \<^verbatim>\<open>len(nbrs) + (n in nbrs)\<close>, a self-loop counts twice. For
  an id that is not a node the call builds a view over \<^verbatim>\<open>nbunch_iter(n)\<close>, which raises
  \<^verbatim>\<open>NetworkXError\<close>.
\<close>

definition degree :: "graph \<Rightarrow> node \<Rightarrow> error + nat" where
  "degree G n = (case map_of G n of None \<Rightarrow> Inl NetworkXError
     | Some ns \<Rightarrow> Inr (length ns + (if n \<in> set ns then 1 else 0)))"

text \<open>\<^verbatim>\<open>G.has_edge(u, v)\<close>: \<^verbatim>\<open>v in _adj[u]\<close>, and \<^verbatim>\<open>False\<close> on the \<^verbatim>\<open>KeyError\<close>.\<close>

definition has_edge :: "graph \<Rightarrow> node \<Rightarrow> node \<Rightarrow> bool" where
  "has_edge G u v = (case map_of G u of None \<Rightarrow> False | Some ns \<Rightarrow> v \<in> set ns)"

text \<open>
  \<^verbatim>\<open>nx.common_neighbors(G, u, v)\<close>: \<^verbatim>\<open>NetworkXError\<close> when \<open>u\<close> or \<open>v\<close> is not a node, else the
  nodes \<open>w\<close> of \<^verbatim>\<open>G[u]\<close> that are in \<^verbatim>\<open>G[v]\<close> and are neither \<open>u\<close> nor \<open>v\<close>. They are
  listed in the order of \<^verbatim>\<open>G[u]\<close>, as the generator of networkx 2 yields them; networkx 3
  returns the same nodes as a set, whose order is its own.
\<close>

definition common_neighbors :: "graph \<Rightarrow> node \<Rightarrow> node \<Rightarrow> error + node list" where
  "common_neighbors G u v =
     (case map_of G u of None \<Rightarrow> Inl NetworkXError
      | Some us \<Rightarrow>
         (case map_of G v of None \<Rightarrow> Inl NetworkXError
          | Some vs \<Rightarrow> Inr (filter (\<lambda>w. w \<in> set vs \<and> w \<noteq> u \<and> w \<noteq> v) us)))"

text \<open>
  \<^verbatim>\<open>G.remove_edge(u, v)\<close>: \<^verbatim>\<open>del _adj[u][v]\<close>, then \<^verbatim>\<open>del _adj[v][u]\<close> when \<open>u \<noteq> v\<close>; a
  \<^verbatim>\<open>KeyError\<close> of either deletion is re-raised as \<^verbatim>\<open>NetworkXError\<close>. The graph is mutated in
  place, so the state reached is returned with the outcome.
\<close>

definition remove_edge :: "graph \<Rightarrow> node \<Rightarrow> node \<Rightarrow> (error + unit) \<times> graph" where
  "remove_edge G u v =
     (case map_of G u of None \<Rightarrow> (Inl NetworkXError, G)
      | Some us \<Rightarrow>
         if v \<notin> set us then (Inl NetworkXError, G)
         else let G1 = AList.update u (removeAll v us) G in
           if u \<noteq> v then
             (case map_of G1 v of None \<Rightarrow> (Inl NetworkXError, G1)
              | Some vs \<Rightarrow>
                 if u \<notin> set vs then (Inl NetworkXError, G1)
                 else (Inr (), AList.update v (removeAll u vs) G1))
           else (Inr (), G1))"

text \<open>The neighbour keys of \<open>n\<close>, none for an id that is not a node.\<close>

definition adj :: "graph \<Rightarrow> node \<Rightarrow> node list" where
  "adj G n = (case map_of G n of None \<Rightarrow> [] | Some ns \<Rightarrow> ns)"

text \<open>
  \<^verbatim>\<open>G.add_edge(u, v)\<close>: both nodes are created when absent, then \<^verbatim>\<open>_adj[u][v]\<close> and
  \<^verbatim>\<open>_adj[v][u]\<close> are assigned. Assigning an existing key keeps its position, a new key goes
  last.
\<close>

definition add_node :: "graph \<Rightarrow> node \<Rightarrow> graph" where
  "add_node G n = (if has_node G n then G else AList.update n [] G)"

definition set_key :: "node \<Rightarrow> node list \<Rightarrow> node list" where
  "set_key k ks = (if k \<in> set ks then ks else ks @ [k])"

definition add_edge :: "graph \<Rightarrow> node \<Rightarrow> node \<Rightarrow> graph" where
  "add_edge G u v =
     (let G1 = add_node G u;
          G2 = add_node G1 v;
          G3 = AList.update u (set_key v (adj G2 u)) G2
      in AList.update v (set_key u (adj G3 v)) G3)"

text \<open>
  The invariant of a \<^verbatim>\<open>networkx.Graph\<close>: node keys are unique, the neighbour keys of a node
  are unique, every neighbour is a node, and adjacency is symmetric.
\<close>

definition wf_graph :: "graph \<Rightarrow> bool" where
  "wf_graph G =
     (distinct (map fst G) \<and>
      (\<forall>(u, ns) \<in> set G. distinct ns \<and> (\<forall>v \<in> set ns. has_edge G v u)))"

section \<open>Shortest path length\<close>

text \<open>
  \<^verbatim>\<open>nx.shortest_path_length(G, source, target)\<close> is a function of the networkx library, used
  by the notebook through its contract: \<^verbatim>\<open>NodeNotFound\<close> when an end point is not a node,
  the number of edges of a shortest path when there is one (0 when source and target are the
  same node), \<^verbatim>\<open>NetworkXNoPath\<close> otherwise. The model searches breadth first: \<open>ball G s k\<close>
  is the set of nodes within \<open>k\<close> edges of \<open>s\<close>, and \<open>first_level\<close> looks for the first \<open>k\<close>
  whose ball holds the target. A shortest path visits no node twice, so the levels below the
  number of nodes are enough; \<open>shortest_path_length_walk\<close> and \<open>no_path_no_walk\<close> below
  state the contract for this model.
\<close>

fun ball :: "graph \<Rightarrow> node \<Rightarrow> nat \<Rightarrow> node set" where
  "ball G s 0 = {s}"
| "ball G s (Suc k) = ball G s k \<union> (\<Union>u \<in> ball G s k. set (adj G u))"

fun first_level :: "graph \<Rightarrow> node \<Rightarrow> node \<Rightarrow> nat \<Rightarrow> nat \<Rightarrow> nat option" where
  "first_level G s t k 0 = None"
| "first_level G s t k (Suc fuel) =
     (if t \<in> ball G s k then Some k else first_level G s t (Suc k) fuel)"

definition shortest_path_length :: "graph \<Rightarrow> node \<Rightarrow> node \<Rightarrow> error + nat" where
  "shortest_path_length G s t =
     (if \<not> has_node G s \<or> \<not> has_node G t then Inl NodeNotFound
      else case first_level G s t 0 (length G) of
             None \<Rightarrow> Inl NetworkXNoPath
           | Some d \<Rightarrow> Inr d)"

section \<open>Structural metrics\<close>

definition and_then :: "error + 'a \<Rightarrow> ('a \<Rightarrow> error + 'b) \<Rightarrow> error + 'b" where
  "and_then m f = (case m of Inl e \<Rightarrow> Inl e | Inr x \<Rightarrow> f x)"

text \<open>\<^verbatim>\<open>math.log\<close> of a Python int, and Python's true division: both raise where undefined.\<close>

definition py_log :: "nat \<Rightarrow> error + real" where
  "py_log d = (if d = 0 then Inl ValueError else Inr (ln (real d)))"

definition py_truediv :: "real \<Rightarrow> real \<Rightarrow> error + real" where
  "py_truediv x y = (if y = 0 then Inl ZeroDivisionError else Inr (x / y))"

text \<open>The loop of \<^verbatim>\<open>custom_adamic_adar_index\<close>, with \<^verbatim>\<open>score\<close> as the accumulator.\<close>

fun adamic_adar_loop :: "graph \<Rightarrow> node list \<Rightarrow> real \<Rightarrow> error + real" where
  "adamic_adar_loop G [] score = Inr score"
| "adamic_adar_loop G (w # ws) score =
     and_then (degree G w) (\<lambda>d.
       if d > 1 then
         and_then (py_log d) (\<lambda>l.
         and_then (py_truediv 1 l) (\<lambda>t.
           adamic_adar_loop G ws (score + t)))
       else adamic_adar_loop G ws score)"

definition custom_adamic_adar_index :: "graph \<Rightarrow> node \<Rightarrow> node \<Rightarrow> error + real" where
  "custom_adamic_adar_index G node1 node2 =
     and_then (common_neighbors G node1 node2) (\<lambda>cn.
       if cn = [] then Inr 0 else adamic_adar_loop G cn 0)"

fun resource_allocation_loop :: "graph \<Rightarrow> node list \<Rightarrow> real \<Rightarrow> error + real" where
  "resource_allocation_loop G [] score = Inr score"
| "resource_allocation_loop G (w # ws) score =
     and_then (degree G w) (\<lambda>d.
       if d > 0 then
         and_then (py_truediv 1 (real d)) (\<lambda>t.
           resource_allocation_loop G ws (score + t))
       else resource_allocation_loop G ws score)"

definition custom_resource_allocation_index :: "graph \<Rightarrow> node \<Rightarrow> node \<Rightarrow> error + real" where
  "custom_resource_allocation_index G node1 node2 =
     and_then (common_neighbors G node1 node2) (\<lambda>cn.
       if cn = [] then Inr 0 else resource_allocation_loop G cn 0)"

definition custom_jaccard_coefficient :: "graph \<Rightarrow> node \<Rightarrow> node \<Rightarrow> error + real" where
  "custom_jaccard_coefficient G node1 node2 =
     and_then (neighbors G node1) (\<lambda>n1.
     and_then (neighbors G node2) (\<lambda>n2.
       let neighbors1 = set n1; neighbors2 = set n2;
           union_size = card (neighbors1 \<union> neighbors2)
       in if union_size = 0 then Inr 0
          else py_truediv (real (card (neighbors1 \<inter> neighbors2))) (real union_size)))"

text \<open>
  The body of the last \<^verbatim>\<open>try\<close> of \<^verbatim>\<open>extract_features\<close>; the lengths are Python ints, so
  the subtraction is the one of \<open>int\<close>.
\<close>

definition shared_neighbors_ratio :: "graph \<Rightarrow> node \<Rightarrow> node \<Rightarrow> error + real" where
  "shared_neighbors_ratio G node1 node2 =
     and_then (neighbors G node1) (\<lambda>n1.
     and_then (neighbors G node2) (\<lambda>n2.
       let neighbors1 = set n1; neighbors2 = set n2;
           l1 = int (card neighbors1); l2 = int (card neighbors2);
           li = int (card (neighbors1 \<inter> neighbors2))
       in if l1 + l2 > 0 then py_truediv (real_of_int li) (real_of_int (l1 + l2 - li))
          else Inr 0))"

section \<open>Attribute metrics\<close>

text \<open>
  An attribute vector is a one-dimensional numpy array of floats. In this section finite
  values are reals and every operation is exact; the special values that numpy produces from
  a division by zero are kept, because \<^verbatim>\<open>extract_features\<close> tests for them. The section
  on binary64 repeats the float computations with the rounding of each operation.
\<close>

datatype npfloat = Fin real | PInf | NInf | NaN

fun np_neg :: "npfloat \<Rightarrow> npfloat" where
  "np_neg (Fin x) = Fin (- x)"
| "np_neg PInf = NInf"
| "np_neg NInf = PInf"
| "np_neg NaN = NaN"

fun np_add :: "npfloat \<Rightarrow> npfloat \<Rightarrow> npfloat" where
  "np_add (Fin x) (Fin y) = Fin (x + y)"
| "np_add NaN _ = NaN"
| "np_add _ NaN = NaN"
| "np_add PInf NInf = NaN"
| "np_add NInf PInf = NaN"
| "np_add PInf _ = PInf"
| "np_add _ PInf = PInf"
| "np_add NInf _ = NInf"
| "np_add _ NInf = NInf"

definition np_sub :: "npfloat \<Rightarrow> npfloat \<Rightarrow> npfloat" where
  "np_sub x y = np_add x (np_neg y)"

definition np_signed_inf :: "real \<Rightarrow> npfloat" where
  "np_signed_inf x = (if x = 0 then NaN else if x > 0 then PInf else NInf)"

fun np_mul :: "npfloat \<Rightarrow> npfloat \<Rightarrow> npfloat" where
  "np_mul (Fin x) (Fin y) = Fin (x * y)"
| "np_mul NaN _ = NaN"
| "np_mul _ NaN = NaN"
| "np_mul (Fin x) PInf = np_signed_inf x"
| "np_mul (Fin x) NInf = np_signed_inf (- x)"
| "np_mul PInf (Fin y) = np_signed_inf y"
| "np_mul NInf (Fin y) = np_signed_inf (- y)"
| "np_mul PInf PInf = PInf"
| "np_mul NInf NInf = PInf"
| "np_mul PInf NInf = NInf"
| "np_mul NInf PInf = NInf"

text \<open>
  \<^verbatim>\<open>np.true_divide\<close>: a finite value over zero is an infinity of its sign, \<^verbatim>\<open>0/0\<close> and
  \<^verbatim>\<open>inf/inf\<close> are \<^verbatim>\<open>nan\<close>. (Every zero divisor of \<^verbatim>\<open>np.corrcoef\<close> is a positive zero.)
\<close>

fun np_div :: "npfloat \<Rightarrow> npfloat \<Rightarrow> npfloat" where
  "np_div (Fin x) (Fin y) = (if y = 0 then np_signed_inf x else Fin (x / y))"
| "np_div NaN _ = NaN"
| "np_div _ NaN = NaN"
| "np_div (Fin x) PInf = Fin 0"
| "np_div (Fin x) NInf = Fin 0"
| "np_div PInf (Fin y) = (if y \<ge> 0 then PInf else NInf)"
| "np_div NInf (Fin y) = (if y \<ge> 0 then NInf else PInf)"
| "np_div PInf PInf = NaN"
| "np_div PInf NInf = NaN"
| "np_div NInf PInf = NaN"
| "np_div NInf NInf = NaN"

fun np_sqrt :: "npfloat \<Rightarrow> npfloat" where
  "np_sqrt (Fin x) = (if x < 0 then NaN else Fin (sqrt x))"
| "np_sqrt PInf = PInf"
| "np_sqrt NInf = NaN"
| "np_sqrt NaN = NaN"

text \<open>
  \<^verbatim>\<open>np.clip(x, lo, hi)\<close> is either \<^verbatim>\<open>nan\<close> (\<open>None\<close>) or a finite value between the bounds.
\<close>

fun np_clip :: "npfloat \<Rightarrow> real \<Rightarrow> real \<Rightarrow> real option" where
  "np_clip (Fin x) lo hi = Some (min hi (max x lo))"
| "np_clip PInf lo hi = Some hi"
| "np_clip NInf lo hi = Some lo"
| "np_clip NaN lo hi = None"

definition np_sum :: "npfloat list \<Rightarrow> npfloat" where
  "np_sum xs = foldl np_add (Fin 0) xs"

text \<open>One entry of \<^verbatim>\<open>dot(X, X.T)\<close> for two rows of equal length.\<close>

definition np_row_dot :: "npfloat list \<Rightarrow> npfloat list \<Rightarrow> npfloat" where
  "np_row_dot xs ys = np_sum (map (\<lambda>(x, y). np_mul x y) (zip xs ys))"

text \<open>
  \<^verbatim>\<open>np.corrcoef(x, y)[0, 1]\<close>, following numpy's \<^verbatim>\<open>cov\<close> and \<^verbatim>\<open>corrcoef\<close>: stacking the
  two vectors raises \<^verbatim>\<open>ValueError\<close> when their lengths differ; each row is centred on its
  mean; the products are scaled by \<^verbatim>\<open>1 / fact\<close> with \<^verbatim>\<open>fact = n - 1\<close>, replaced by
  \<^verbatim>\<open>0.0\<close> when it is not positive; the entry is divided by the square roots of the two
  diagonal entries and clipped to \<open>[-1, 1]\<close>.
\<close>

definition np_centre :: "real list \<Rightarrow> npfloat list" where
  "np_centre x =
     (let avg = np_div (Fin (sum_list x)) (Fin (real (length x)))
      in map (\<lambda>a. np_sub (Fin a) avg) x)"

definition np_cov_entry :: "nat \<Rightarrow> npfloat list \<Rightarrow> npfloat list \<Rightarrow> npfloat" where
  "np_cov_entry n X0 X1 =
     (let fact = (if int n - 1 \<le> 0 then 0 else real n - 1)
      in np_mul (np_row_dot X0 X1) (np_div (Fin 1) (Fin fact)))"

definition np_corrcoef01 :: "real list \<Rightarrow> real list \<Rightarrow> error + real option" where
  "np_corrcoef01 x y =
     (if length x \<noteq> length y then Inl ValueError
      else let n = length x; X0 = np_centre x; X1 = np_centre y;
               c01 = np_cov_entry n X0 X1;
               stddev0 = np_sqrt (np_cov_entry n X0 X0);
               stddev1 = np_sqrt (np_cov_entry n X1 X1)
           in Inr (np_clip (np_div (np_div c01 stddev0) stddev1) (- 1) 1))"

text \<open>\<^verbatim>\<open>np.dot\<close> of two vectors raises \<^verbatim>\<open>ValueError\<close> when their lengths differ.\<close>

definition np_dot :: "real list \<Rightarrow> real list \<Rightarrow> error + real" where
  "np_dot u v =
     (if length u \<noteq> length v then Inl ValueError
      else Inr (sum_list (map (\<lambda>(x, y). x * y) (zip u v))))"

definition np_linalg_norm :: "real list \<Rightarrow> real" where
  "np_linalg_norm u = sqrt (sum_list (map (\<lambda>x. x * x) u))"

definition cosine_similarity :: "real list \<Rightarrow> real list \<Rightarrow> error + real" where
  "cosine_similarity vec1 vec2 =
     and_then (np_dot vec1 vec2) (\<lambda>dot_product.
       let norm1 = np_linalg_norm vec1; norm2 = np_linalg_norm vec2
       in if norm1 * norm2 > 0 then Inr (dot_product / (norm1 * norm2)) else Inr 0)"

text \<open>
  \<^verbatim>\<open>np.logical_and\<close> works elementwise on equal lengths, broadcasts an array of length one,
  and raises \<^verbatim>\<open>ValueError\<close> on any other pair of lengths.
\<close>

definition np_logical_and :: "bool list \<Rightarrow> bool list \<Rightarrow> error + bool list" where
  "np_logical_and xs ys =
     (if length xs = length ys then Inr (map (\<lambda>(x, y). x \<and> y) (zip xs ys))
      else if length xs = 1 then Inr (map (\<lambda>y. hd xs \<and> y) ys)
      else if length ys = 1 then Inr (map (\<lambda>x. x \<and> hd ys) xs)
      else Inl ValueError)"

definition matching_topics :: "real list \<Rightarrow> real list \<Rightarrow> error + nat" where
  "matching_topics u v =
     (let n1_nonzero = map (\<lambda>x. x \<noteq> 0) u; n2_nonzero = map (\<lambda>x. x \<noteq> 0) v
      in and_then (np_logical_and n1_nonzero n2_nonzero) (\<lambda>bs. Inr (length (filter id bs))))"

section \<open>The feature vector\<close>

text \<open>The global dictionary \<^verbatim>\<open>node_features\<close>.\<close>

type_synonym attrs = "node \<Rightarrow> real list option"

text \<open>
  The body of the \<^verbatim>\<open>try\<close> around the shortest path query. An exception leaves the
  \<^verbatim>\<open>try\<close> at the statement that raised it, with the graph as it is then.
\<close>

definition path_length_try :: "graph \<Rightarrow> node \<Rightarrow> node \<Rightarrow> (error + nat) \<times> graph" where
  "path_length_try G node1 node2 =
     (if has_edge G node1 node2 then
        (case remove_edge G node1 node2 of
           (Inl e, G1) \<Rightarrow> (Inl e, G1)
         | (Inr _, G1) \<Rightarrow>
             (case shortest_path_length G1 node1 node2 of
                Inl e \<Rightarrow> (Inl e, G1)
              | Inr path_length \<Rightarrow> (Inr path_length, add_edge G1 node1 node2)))
      else (shortest_path_length G node1 node2, G))"

text \<open>
  \<^verbatim>\<open>except (nx.NetworkXNoPath, nx.NetworkXError)\<close> appends \<open>-1\<close>; no other exception is
  caught there.
\<close>

definition path_length_feature :: "graph \<Rightarrow> node \<Rightarrow> node \<Rightarrow> (error + real) \<times> graph" where
  "path_length_feature G node1 node2 =
     (case path_length_try G node1 node2 of
        (Inr path_length, G1) \<Rightarrow> (Inr (real path_length), G1)
      | (Inl e, G1) \<Rightarrow>
          (if e = NetworkXNoPath \<or> e = NetworkXError then (Inr (- 1), G1) else (Inl e, G1)))"

text \<open>The correlation entry: \<^verbatim>\<open>nan\<close> and every exception become 0.\<close>

definition correlation_feature :: "real list \<Rightarrow> real list \<Rightarrow> real" where
  "correlation_feature u v =
     (case np_corrcoef01 u v of
        Inl e \<Rightarrow> 0
      | Inr None \<Rightarrow> 0
      | Inr (Some corr) \<Rightarrow> corr)"

definition attribute_features :: "attrs \<Rightarrow> node \<Rightarrow> node \<Rightarrow> error + real list" where
  "attribute_features node_features node1 node2 =
     (case (node_features node1, node_features node2) of
        (Some u, Some v) \<Rightarrow>
          and_then (cosine_similarity u v) (\<lambda>cos_sim.
          and_then (matching_topics u v) (\<lambda>m.
            Inr [cos_sim, correlation_feature u v, real m]))
      | _ \<Rightarrow> Inr [0, 0, 0])"

text \<open>The last \<^verbatim>\<open>try\<close>, whose bare \<^verbatim>\<open>except\<close> appends 0.\<close>

definition shared_neighbors_feature :: "graph \<Rightarrow> node \<Rightarrow> node \<Rightarrow> real" where
  "shared_neighbors_feature G node1 node2 =
     (case shared_neighbors_ratio G node1 node2 of Inl e \<Rightarrow> 0 | Inr r \<Rightarrow> r)"

definition structural_features :: "graph \<Rightarrow> node \<Rightarrow> node \<Rightarrow> error + real list" where
  "structural_features G node1 node2 =
     and_then (common_neighbors G node1 node2) (\<lambda>cn.
     and_then (custom_jaccard_coefficient G node1 node2) (\<lambda>jac.
     and_then (degree G node1) (\<lambda>d1.
     and_then (degree G node2) (\<lambda>d2.
     and_then (custom_adamic_adar_index G node1 node2) (\<lambda>aa.
     and_then (custom_resource_allocation_index G node1 node2) (\<lambda>ra.
       Inr [real (length cn), jac, real (d1 * d2), aa, ra]))))))"

text \<open>
  \<^verbatim>\<open>extract_features(G, node1, node2)\<close>, with the graph after the call as the second
  component: the features in the order \<^verbatim>\<open>[common neighbours, Jaccard, preferential
  attachment, Adamic-Adar, resource allocation, shortest path length, cosine, correlation,
  matching topics, shared neighbours ratio]\<close>.
\<close>

definition extract_features ::
  "graph \<Rightarrow> attrs \<Rightarrow> node \<Rightarrow> node \<Rightarrow> (error + real list) \<times> graph" where
  "extract_features G node_features node1 node2 =
     (if \<not> has_node G node1 \<or> \<not> has_node G node2 then (Inr (replicate 10 0), G)
      else case structural_features G node1 node2 of
             Inl e \<Rightarrow> (Inl e, G)
           | Inr fs \<Rightarrow>
               (case path_length_feature G node1 node2 of
                  (Inl e, G1) \<Rightarrow> (Inl e, G1)
                | (Inr pl, G1) \<Rightarrow>
                    (case attribute_features node_features node1 node2 of
                       Inl e \<Rightarrow> (Inl e, G1)
                     | Inr as \<Rightarrow>
                         (Inr (fs @ [pl] @ as @ [shared_neighbors_feature G1 node1 node2]),
                          G1))))"

section \<open>The float computations in binary64\<close>

text \<open>
  Python floats and numpy's \<^verbatim>\<open>float64\<close> are IEEE 754 binary64: an operation returns the
  double nearest to its exact result, a tie goes to the even significand, and a result
  beyond the largest double is an infinity. \<open>round_even\<close> is the nearest integer with ties
  to even, \<open>ulp_exponent\<close> the exponent of the unit in the last place (the significand has
  53 bits, and below the smallest normal double the spacing stays that of the subnormals),
  \<open>f64\<close> the rounded value and \<open>round_f64\<close> the result of an operation whose exact result
  is finite.
\<close>

definition round_even :: "real \<Rightarrow> int" where
  "round_even x =
     (let f = \<lfloor>x\<rfloor> in
      if x - of_int f < 1 / 2 then f
      else if 1 / 2 < x - of_int f then f + 1
      else if even f then f else f + 1)"

definition ulp_exponent :: "real \<Rightarrow> int" where
  "ulp_exponent x = max \<lfloor>log 2 \<bar>x\<bar>\<rfloor> (- 1022) - 52"

definition f64 :: "real \<Rightarrow> real" where
  "f64 x =
     (if x = 0 then 0
      else of_int (round_even (x / 2 powr of_int (ulp_exponent x))) * 2 powr of_int (ulp_exponent x))"

definition round_f64 :: "real \<Rightarrow> npfloat" where
  "round_f64 x =
     (let y = f64 x in if 2 ^ 1024 \<le> y then PInf else if y \<le> - (2 ^ 1024) then NInf else Fin y)"

text \<open>
  The float computations of the notebook once more, with a rounding \<open>rnd\<close> applied to the
  result of every float operation, in the order in which the source performs them. With
  \<open>rnd = Fin\<close> nothing is rounded and the functions are the exact ones above; with
  \<open>rnd = round_f64\<close> they are the arithmetic of the notebook. Lengths, degrees, the path
  length and the count of matching entries are Python ints and are not rounded.
  \<^verbatim>\<open>math.log\<close> is taken as correctly rounded.
\<close>

definition fl :: "(real \<Rightarrow> npfloat) \<Rightarrow> npfloat \<Rightarrow> npfloat" where
  "fl rnd v = (case v of Fin x \<Rightarrow> rnd x | PInf \<Rightarrow> PInf | NInf \<Rightarrow> NInf | NaN \<Rightarrow> NaN)"

text \<open>The test \<^verbatim>\<open>norm1 * norm2 > 0\<close> on a float.\<close>

definition np_positive :: "npfloat \<Rightarrow> bool" where
  "np_positive v = (case v of Fin x \<Rightarrow> 0 < x | PInf \<Rightarrow> True | NInf \<Rightarrow> False | NaN \<Rightarrow> False)"

definition py_log_fl :: "(real \<Rightarrow> npfloat) \<Rightarrow> nat \<Rightarrow> error + npfloat" where
  "py_log_fl rnd d = (if d = 0 then Inl ValueError else Inr (rnd (ln (real d))))"

definition py_truediv_fl :: "(real \<Rightarrow> npfloat) \<Rightarrow> npfloat \<Rightarrow> npfloat \<Rightarrow> error + npfloat" where
  "py_truediv_fl rnd x y = (if y = Fin 0 then Inl ZeroDivisionError else Inr (fl rnd (np_div x y)))"

fun adamic_adar_loop_fl ::
  "(real \<Rightarrow> npfloat) \<Rightarrow> graph \<Rightarrow> node list \<Rightarrow> npfloat \<Rightarrow> error + npfloat" where
  "adamic_adar_loop_fl rnd G [] score = Inr score"
| "adamic_adar_loop_fl rnd G (w # ws) score =
     and_then (degree G w) (\<lambda>d.
       if d > 1 then
         and_then (py_log_fl rnd d) (\<lambda>l.
         and_then (py_truediv_fl rnd (Fin 1) l) (\<lambda>t.
           adamic_adar_loop_fl rnd G ws (fl rnd (np_add score t))))
       else adamic_adar_loop_fl rnd G ws score)"

definition custom_adamic_adar_index_fl ::
  "(real \<Rightarrow> npfloat) \<Rightarrow> graph \<Rightarrow> node \<Rightarrow> node \<Rightarrow> error + npfloat" where
  "custom_adamic_adar_index_fl rnd G node1 node2 =
     and_then (common_neighbors G node1 node2) (\<lambda>cn.
       if cn = [] then Inr (Fin 0) else adamic_adar_loop_fl rnd G cn (Fin 0))"

fun resource_allocation_loop_fl ::
  "(real \<Rightarrow> npfloat) \<Rightarrow> graph \<Rightarrow> node list \<Rightarrow> npfloat \<Rightarrow> error + npfloat" where
  "resource_allocation_loop_fl rnd G [] score = Inr score"
| "resource_allocation_loop_fl rnd G (w # ws) score =
     and_then (degree G w) (\<lambda>d.
       if d > 0 then
         and_then (py_truediv_fl rnd (Fin 1) (Fin (real d))) (\<lambda>t.
           resource_allocation_loop_fl rnd G ws (fl rnd (np_add score t)))
       else resource_allocation_loop_fl rnd G ws score)"

definition custom_resource_allocation_index_fl ::
  "(real \<Rightarrow> npfloat) \<Rightarrow> graph \<Rightarrow> node \<Rightarrow> node \<Rightarrow> error + npfloat" where
  "custom_resource_allocation_index_fl rnd G node1 node2 =
     and_then (common_neighbors G node1 node2) (\<lambda>cn.
       if cn = [] then Inr (Fin 0) else resource_allocation_loop_fl rnd G cn (Fin 0))"

definition custom_jaccard_coefficient_fl ::
  "(real \<Rightarrow> npfloat) \<Rightarrow> graph \<Rightarrow> node \<Rightarrow> node \<Rightarrow> error + npfloat" where
  "custom_jaccard_coefficient_fl rnd G node1 node2 =
     and_then (neighbors G node1) (\<lambda>n1.
     and_then (neighbors G node2) (\<lambda>n2.
       let neighbors1 = set n1; neighbors2 = set n2;
           union_size = card (neighbors1 \<union> neighbors2)
       in if union_size = 0 then Inr (Fin 0)
          else py_truediv_fl rnd (Fin (real (card (neighbors1 \<inter> neighbors2))))
                 (Fin (real union_size))))"

definition shared_neighbors_ratio_fl ::
  "(real \<Rightarrow> npfloat) \<Rightarrow> graph \<Rightarrow> node \<Rightarrow> node \<Rightarrow> error + npfloat" where
  "shared_neighbors_ratio_fl rnd G node1 node2 =
     and_then (neighbors G node1) (\<lambda>n1.
     and_then (neighbors G node2) (\<lambda>n2.
       let neighbors1 = set n1; neighbors2 = set n2;
           l1 = int (card neighbors1); l2 = int (card neighbors2);
           li = int (card (neighbors1 \<inter> neighbors2))
       in if l1 + l2 > 0
          then py_truediv_fl rnd (Fin (real_of_int li)) (Fin (real_of_int (l1 + l2 - li)))
          else Inr (Fin 0)))"

text \<open>
  numpy adds fewer than eight numbers from left to right, the order of \<open>np_sum_fl\<close>; for
  longer vectors the order of its additions, and that of the BLAS routine behind
  \<^verbatim>\<open>np.dot\<close>, depends on the build, and so does the use of a fused multiply-add. Such a
  choice changes the last digits of a dot product, not its symmetry in the two vectors: each
  product commutes.
\<close>

definition np_sum_fl :: "(real \<Rightarrow> npfloat) \<Rightarrow> npfloat list \<Rightarrow> npfloat" where
  "np_sum_fl rnd xs = foldl (\<lambda>acc x. fl rnd (np_add acc x)) (Fin 0) xs"

definition np_row_dot_fl :: "(real \<Rightarrow> npfloat) \<Rightarrow> npfloat list \<Rightarrow> npfloat list \<Rightarrow> npfloat" where
  "np_row_dot_fl rnd xs ys = np_sum_fl rnd (map (\<lambda>(x, y). fl rnd (np_mul x y)) (zip xs ys))"

text \<open>
  \<^verbatim>\<open>np.cov\<close> subtracts the mean of each row, multiplies the products by
  \<^verbatim>\<open>np.true_divide(1, fact)\<close>; \<^verbatim>\<open>np.corrcoef\<close> divides the entry by the standard deviation of
  the first argument, then by that of the second.
\<close>

definition np_centre_fl :: "(real \<Rightarrow> npfloat) \<Rightarrow> real list \<Rightarrow> npfloat list" where
  "np_centre_fl rnd x =
     (let avg = fl rnd (np_div (np_sum_fl rnd (map Fin x)) (Fin (real (length x))))
      in map (\<lambda>a. fl rnd (np_sub (Fin a) avg)) x)"

definition np_cov_entry_fl ::
  "(real \<Rightarrow> npfloat) \<Rightarrow> nat \<Rightarrow> npfloat list \<Rightarrow> npfloat list \<Rightarrow> npfloat" where
  "np_cov_entry_fl rnd n X0 X1 =
     (let fact = (if int n - 1 \<le> 0 then 0 else real n - 1)
      in fl rnd (np_mul (np_row_dot_fl rnd X0 X1) (fl rnd (np_div (Fin 1) (Fin fact)))))"

definition np_corrcoef01_fl :: "(real \<Rightarrow> npfloat) \<Rightarrow> real list \<Rightarrow> real list \<Rightarrow> error + real option" where
  "np_corrcoef01_fl rnd x y =
     (if length x \<noteq> length y then Inl ValueError
      else let n = length x; X0 = np_centre_fl rnd x; X1 = np_centre_fl rnd y;
               c01 = np_cov_entry_fl rnd n X0 X1;
               stddev0 = fl rnd (np_sqrt (np_cov_entry_fl rnd n X0 X0));
               stddev1 = fl rnd (np_sqrt (np_cov_entry_fl rnd n X1 X1))
           in Inr (np_clip (fl rnd (np_div (fl rnd (np_div c01 stddev0)) stddev1)) (- 1) 1))"

definition np_dot_fl :: "(real \<Rightarrow> npfloat) \<Rightarrow> real list \<Rightarrow> real list \<Rightarrow> error + npfloat" where
  "np_dot_fl rnd u v =
     (if length u \<noteq> length v then Inl ValueError
      else Inr (np_row_dot_fl rnd (map Fin u) (map Fin v)))"

definition np_linalg_norm_fl :: "(real \<Rightarrow> npfloat) \<Rightarrow> real list \<Rightarrow> npfloat" where
  "np_linalg_norm_fl rnd u = fl rnd (np_sqrt (np_row_dot_fl rnd (map Fin u) (map Fin u)))"

definition cosine_similarity_fl ::
  "(real \<Rightarrow> npfloat) \<Rightarrow> real list \<Rightarrow> real list \<Rightarrow> error + npfloat" where
  "cosine_similarity_fl rnd vec1 vec2 =
     and_then (np_dot_fl rnd vec1 vec2) (\<lambda>dot_product.
       let norm1 = np_linalg_norm_fl rnd vec1; norm2 = np_linalg_norm_fl rnd vec2
       in if np_positive (fl rnd (np_mul norm1 norm2))
          then Inr (fl rnd (np_div dot_product (fl rnd (np_mul norm1 norm2))))
          else Inr (Fin 0))"

definition correlation_feature_fl :: "(real \<Rightarrow> npfloat) \<Rightarrow> real list \<Rightarrow> real list \<Rightarrow> real" where
  "correlation_feature_fl rnd u v =
     (case np_corrcoef01_fl rnd u v of
        Inl e \<Rightarrow> 0
      | Inr None \<Rightarrow> 0
      | Inr (Some corr) \<Rightarrow> corr)"

definition attribute_features_fl ::
  "(real \<Rightarrow> npfloat) \<Rightarrow> attrs \<Rightarrow> node \<Rightarrow> node \<Rightarrow> error + npfloat list" where
  "attribute_features_fl rnd node_features node1 node2 =
     (case (node_features node1, node_features node2) of
        (Some u, Some v) \<Rightarrow>
          and_then (cosine_similarity_fl rnd u v) (\<lambda>cos_sim.
          and_then (matching_topics u v) (\<lambda>m.
            Inr [cos_sim, Fin (correlation_feature_fl rnd u v), Fin (real m)]))
      | _ \<Rightarrow> Inr [Fin 0, Fin 0, Fin 0])"

definition shared_neighbors_feature_fl ::
  "(real \<Rightarrow> npfloat) \<Rightarrow> graph \<Rightarrow> node \<Rightarrow> node \<Rightarrow> npfloat" where
  "shared_neighbors_feature_fl rnd G node1 node2 =
     (case shared_neighbors_ratio_fl rnd G node1 node2 of Inl e \<Rightarrow> Fin 0 | Inr r \<Rightarrow> r)"

definition structural_features_fl ::
  "(real \<Rightarrow> npfloat) \<Rightarrow> graph \<Rightarrow> node \<Rightarrow> node \<Rightarrow> error + npfloat list" where
  "structural_features_fl rnd G node1 node2 =
     and_then (common_neighbors G node1 node2) (\<lambda>cn.
     and_then (custom_jaccard_coefficient_fl rnd G node1 node2) (\<lambda>jac.
     and_then (degree G node1) (\<lambda>d1.
     and_then (degree G node2) (\<lambda>d2.
     and_then (custom_adamic_adar_index_fl rnd G node1 node2) (\<lambda>aa.
     and_then (custom_resource_allocation_index_fl rnd G node1 node2) (\<lambda>ra.
       Inr [Fin (real (length cn)), jac, Fin (real (d1 * d2)), aa, ra]))))))"

definition extract_features_fl ::
  "(real \<Rightarrow> npfloat) \<Rightarrow> graph \<Rightarrow> attrs \<Rightarrow> node \<Rightarrow> node \<Rightarrow> (error + npfloat list) \<times> graph" where
  "extract_features_fl rnd G node_features node1 node2 =
     (if \<not> has_node G node1 \<or> \<not> has_node G node2 then (Inr (replicate 10 (Fin 0)), G)
      else case structural_features_fl rnd G node1 node2 of
             Inl e \<Rightarrow> (Inl e, G)
           | Inr fs \<Rightarrow>
               (case path_length_feature G node1 node2 of
                  (Inl e, G1) \<Rightarrow> (Inl e, G1)
                | (Inr pl, G1) \<Rightarrow>
                    (case attribute_features_fl rnd node_features node1 node2 of
                       Inl e \<Rightarrow> (Inl e, G1)
                     | Inr as \<Rightarrow>
                         (Inr (fs @ [Fin pl] @ as @
                               [shared_neighbors_feature_fl rnd G1 node1 node2]), G1))))"

section \<open>Notions used in the statements\<close>

text \<open>
  The degree as a number, the set of common neighbours, symmetry of the adjacency, the graph
  with one edge taken out of both adjacency entries, and the invariant of the attribute
  table: all vectors have one length.
\<close>

definition deg :: "graph \<Rightarrow> node \<Rightarrow> nat" where
  "deg G w = length (adj G w) + (if w \<in> set (adj G w) then 1 else 0)"

definition cn_set :: "graph \<Rightarrow> node \<Rightarrow> node \<Rightarrow> node set" where
  "cn_set G a b = (set (adj G a) \<inter> set (adj G b)) - {a, b}"

definition sym_adj :: "graph \<Rightarrow> bool" where
  "sym_adj G = (\<forall>u v. v \<in> set (adj G u) \<longleftrightarrow> u \<in> set (adj G v))"

definition without_edge :: "graph \<Rightarrow> node \<Rightarrow> node \<Rightarrow> graph" where
  "without_edge G a b =
     AList.update b (removeAll a (adj G b)) (AList.update a (removeAll b (adj G a)) G)"

definition wf_attrs :: "attrs \<Rightarrow> bool" where
  "wf_attrs node_features =
     (\<forall>a b u v. node_features a = Some u \<longrightarrow> node_features b = Some v \<longrightarrow> length u = length v)"

text \<open>A walk: a list of nodes, each adjacent to the one before it.\<close>

fun walk :: "graph \<Rightarrow> node list \<Rightarrow> bool" where
  "walk G [] = True"
| "walk G [v] = True"
| "walk G (u # v # vs) = (v \<in> set (adj G u) \<and> walk G (v # vs))"

text \<open>The distance as the feature reports it: \<open>-1\<close> when the query raises.\<close>

definition distance_or_sentinel :: "graph \<Rightarrow> node \<Rightarrow> node \<Rightarrow> real" where
  "distance_or_sentinel G s t =
     (case shortest_path_length G s t of Inl e \<Rightarrow> - 1 | Inr d \<Rightarrow> real d)"

text \<open>The Jaccard coefficient of the two neighbour sets.\<close>

definition jaccard_value :: "graph \<Rightarrow> node \<Rightarrow> node \<Rightarrow> real" where
  "jaccard_value G a b =
     (if set (adj G a) \<union> set (adj G b) = {} then 0
      else real (card (set (adj G a) \<inter> set (adj G b)))
           / real (card (set (adj G a) \<union> set (adj G b))))"

text \<open>The two weighted sums over the common neighbours.\<close>

definition adamic_adar_value :: "graph \<Rightarrow> node \<Rightarrow> node \<Rightarrow> real" where
  "adamic_adar_value G a b = (\<Sum>w \<in> {w \<in> cn_set G a b. deg G w > 1}. 1 / ln (real (deg G w)))"

definition resource_allocation_value :: "graph \<Rightarrow> node \<Rightarrow> node \<Rightarrow> real" where
  "resource_allocation_value G a b = (\<Sum>w \<in> {w \<in> cn_set G a b. deg G w > 0}. 1 / real (deg G w))"

text \<open>
  The sample correlation coefficient of two vectors, and when it is defined: equal lengths,
  at least two entries, and neither vector constant.
\<close>

definition mean :: "real list \<Rightarrow> real" where
  "mean x = sum_list x / real (length x)"

definition centred :: "real list \<Rightarrow> real list" where
  "centred x = map (\<lambda>a. a - mean x) x"

definition inner :: "real list \<Rightarrow> real list \<Rightarrow> real" where
  "inner u v = sum_list (map (\<lambda>(a, b). a * b) (zip u v))"

definition pearson_r :: "real list \<Rightarrow> real list \<Rightarrow> real" where
  "pearson_r x y =
     inner (centred x) (centred y)
       / (sqrt (inner (centred x) (centred x)) * sqrt (inner (centred y) (centred y)))"

definition correlation_defined :: "real list \<Rightarrow> real list \<Rightarrow> bool" where
  "correlation_defined x y =
     (length x = length y \<and> 2 \<le> length x \<and>
      inner (centred x) (centred x) \<noteq> 0 \<and> inner (centred y) (centred y) \<noteq> 0)"

text \<open>One position of the list a call returns, none when the call raises.\<close>

definition component :: "nat \<Rightarrow> (error + 'a list) \<times> graph \<Rightarrow> 'a option" where
  "component i r =
     (case fst r of Inl e \<Rightarrow> None | Inr fs \<Rightarrow> if i < length fs then Some (fs ! i) else None)"

section \<open>Graph store: basic facts\<close>

lemma wf_graph_distinct_adj:
  "wf_graph G \<Longrightarrow> map_of G u = Some ns \<Longrightarrow> distinct ns"
  by (auto simp: wf_graph_def dest!: map_of_SomeD)

lemma wf_graph_sym:
  "wf_graph G \<Longrightarrow> map_of G u = Some ns \<Longrightarrow> v \<in> set ns \<Longrightarrow>
   \<exists>ms. map_of G v = Some ms \<and> u \<in> set ms"
  by (fastforce simp: wf_graph_def has_edge_def dest!: map_of_SomeD split: option.splits)

lemma in_adjD: "w \<in> set (adj G a) \<Longrightarrow> map_of G a = Some (adj G a)"
  by (cases "map_of G a") (auto simp: adj_def)

lemma has_edge_adj: "has_edge G u v \<longleftrightarrow> v \<in> set (adj G u)"
  by (cases "map_of G u") (auto simp: adj_def has_edge_def)

lemma has_edge_sym: "wf_graph G \<Longrightarrow> has_edge G u v = has_edge G v u"
  unfolding has_edge_adj using wf_graph_sym[of G] in_adjD[of _ G]
  by (metis adj_def option.simps(5))

lemma adj_sym: "wf_graph G \<Longrightarrow> v \<in> set (adj G u) \<longleftrightarrow> u \<in> set (adj G v)"
  using has_edge_sym[of G u v] by (simp add: has_edge_adj)

lemma common_neighbour_degree:
  assumes wf: "wf_graph G" and ab: "a \<noteq> b"
    and wa: "w \<in> set (adj G a)" and wb: "w \<in> set (adj G b)"
  shows "\<exists>d. degree G w = Inr d \<and> 2 \<le> d"
proof -
  from wa have as: "map_of G a = Some (adj G a)" "w \<in> set (adj G a)"
    by (auto dest: in_adjD)
  from wb have bs: "map_of G b = Some (adj G b)" "w \<in> set (adj G b)"
    by (auto dest: in_adjD)
  from wf_graph_sym[OF wf as] obtain ms where ms: "map_of G w = Some ms" "a \<in> set ms" by blast
  from wf_graph_sym[OF wf bs] ms have b: "b \<in> set ms" by auto
  have "distinct ms" using wf ms(1) by (rule wf_graph_distinct_adj)
  have "card {a, b} \<le> card (set ms)"
    using ms(2) b by (intro card_mono) auto
  hence "2 \<le> length ms" using ab \<open>distinct ms\<close> by (simp add: distinct_card)
  thus ?thesis using ms(1) by (simp add: degree_def)
qed

lemma degree_deg: "has_node G w \<Longrightarrow> degree G w = Inr (deg G w)"
  by (cases "map_of G w") (auto simp: has_node_def degree_def deg_def adj_def)

lemma has_node_neighbour:
  "wf_graph G \<Longrightarrow> w \<in> set (adj G a) \<Longrightarrow> has_node G w"
  using wf_graph_sym[of G a "adj G a" w] in_adjD[of w G a] by (auto simp: has_node_def)

lemma common_neighbors_adj:
  "has_node G a \<Longrightarrow> has_node G b \<Longrightarrow>
   common_neighbors G a b = Inr (filter (\<lambda>w. w \<in> set (adj G b) \<and> w \<noteq> a \<and> w \<noteq> b) (adj G a))"
  by (cases "map_of G a"; cases "map_of G b")
     (auto simp: has_node_def common_neighbors_def adj_def)

subsection \<open>The two loops as sums\<close>

lemma adamic_adar_loop_sum:
  "\<forall>w \<in> set ws. has_node G w \<Longrightarrow>
   adamic_adar_loop G ws s =
     Inr (s + sum_list (map (\<lambda>w. if deg G w > 1 then 1 / ln (real (deg G w)) else 0) ws))"
proof (induction ws arbitrary: s)
  case Nil
  then show ?case by simp
next
  case (Cons w ws)
  have "deg G w > 1 \<Longrightarrow> ln (real (deg G w)) \<noteq> 0" by simp
  with Cons show ?case
    by (simp add: degree_deg and_then_def py_log_def py_truediv_def add.assoc)
qed

lemma resource_allocation_loop_sum:
  "\<forall>w \<in> set ws. has_node G w \<Longrightarrow>
   resource_allocation_loop G ws s =
     Inr (s + sum_list (map (\<lambda>w. if deg G w > 0 then 1 / real (deg G w) else 0) ws))"
proof (induction ws arbitrary: s)
  case Nil
  then show ?case by simp
next
  case (Cons w ws)
  then show ?case
    by (simp add: degree_deg and_then_def py_truediv_def add.assoc)
qed

lemma common_neighbors_set:
  assumes "has_node G a" "has_node G b" "wf_graph G"
  shows "\<exists>cn. common_neighbors G a b = Inr cn \<and> distinct cn \<and> set cn = cn_set G a b
     \<and> (\<forall>w \<in> set cn. has_node G w)"
proof -
  have d: "distinct (adj G a)"
    using assms(1,3) by (cases "map_of G a") (auto simp: adj_def has_node_def dest: wf_graph_distinct_adj)
  show ?thesis
    using d assms(3) by (auto simp: common_neighbors_adj[OF assms(1,2)] cn_set_def intro: has_node_neighbour)
qed

lemma adamic_adar_sum:
  assumes "has_node G a" "has_node G b" "wf_graph G"
  shows "custom_adamic_adar_index G a b =
     Inr (\<Sum>w \<in> {w \<in> cn_set G a b. deg G w > 1}. 1 / ln (real (deg G w)))"
proof -
  from common_neighbors_set[OF assms] obtain cn where cn:
    "common_neighbors G a b = Inr cn" "distinct cn" "set cn = cn_set G a b"
    "\<forall>w \<in> set cn. has_node G w" by blast
  have "custom_adamic_adar_index G a b = adamic_adar_loop G cn 0"
    using cn(1) by (cases cn) (simp_all add: custom_adamic_adar_index_def and_then_def)
  also have "\<dots> = Inr (\<Sum>w \<in> set cn. if deg G w > 1 then 1 / ln (real (deg G w)) else 0)"
    using cn(2,4) by (simp add: adamic_adar_loop_sum sum_list_distinct_conv_sum_set)
  also have "(\<Sum>w \<in> set cn. if deg G w > 1 then 1 / ln (real (deg G w)) else 0)
      = (\<Sum>w \<in> {w \<in> set cn. deg G w > 1}. 1 / ln (real (deg G w)))"
    by (simp add: sum.inter_filter)
  finally show ?thesis by (simp add: cn(3))
qed

lemma resource_allocation_sum:
  assumes "has_node G a" "has_node G b" "wf_graph G"
  shows "custom_resource_allocation_index G a b =
     Inr (\<Sum>w \<in> {w \<in> cn_set G a b. deg G w > 0}. 1 / real (deg G w))"
proof -
  from common_neighbors_set[OF assms] obtain cn where cn:
    "common_neighbors G a b = Inr cn" "distinct cn" "set cn = cn_set G a b"
    "\<forall>w \<in> set cn. has_node G w" by blast
  have "custom_resource_allocation_index G a b = resource_allocation_loop G cn 0"
    using cn(1) by (cases cn) (simp_all add: custom_resource_allocation_index_def and_then_def)
  also have "\<dots> = Inr (\<Sum>w \<in> set cn. if deg G w > 0 then 1 / real (deg G w) else 0)"
    using cn(2,4) by (simp add: resource_allocation_loop_sum sum_list_distinct_conv_sum_set)
  also have "(\<Sum>w \<in> set cn. if deg G w > 0 then 1 / real (deg G w) else 0)
      = (\<Sum>w \<in> {w \<in> set cn. deg G w > 0}. 1 / real (deg G w))"
    by (simp add: sum.inter_filter)
  finally show ?thesis by (simp add: cn(3))
qed

subsection \<open>The search in an undirected graph\<close>

lemma wf_graph_sym_adj: "wf_graph G \<Longrightarrow> sym_adj G"
  using adj_sym by (auto simp: sym_adj_def)

lemma ball_self: "s \<in> ball G s k"
  by (induction k) auto

lemma ball_mono: "ball G s k \<subseteq> ball G s (Suc k)"
  by auto

lemma ball_front:
  "ball G s (Suc k) = insert s (\<Union>u \<in> set (adj G s). ball G u k)"
proof (induction k)
  case 0
  show ?case by auto
next
  case (Suc k)
  have "ball G s (Suc (Suc k)) = ball G s (Suc k) \<union> (\<Union>u \<in> ball G s (Suc k). set (adj G u))"
    by simp
  also have "\<dots> = insert s (\<Union>u \<in> set (adj G s). ball G u k)
       \<union> (\<Union>u \<in> insert s (\<Union>u \<in> set (adj G s). ball G u k). set (adj G u))"
    by (simp only: Suc.IH)
  also have "\<dots> = insert s (\<Union>u \<in> set (adj G s). ball G u (Suc k))"
    using ball_self[of _ G k] by auto
  finally show ?case .
qed

lemma ball_sym:
  assumes "sym_adj G"
  shows "t \<in> ball G s k \<longleftrightarrow> s \<in> ball G t k"
proof (induction k arbitrary: s t)
  case 0
  show ?case by auto
next
  case (Suc k)
  have step: "y \<in> ball G x (Suc k) \<Longrightarrow> x \<in> ball G y (Suc k)" for x y
  proof -
    assume "y \<in> ball G x (Suc k)"
    then consider "y \<in> ball G x k" | u where "u \<in> ball G x k" "y \<in> set (adj G u)"
      by auto
    then show ?thesis
    proof cases
      case 1
      then have "x \<in> ball G y k" using Suc.IH by blast
      then show ?thesis by simp
    next
      case 2
      then have "x \<in> ball G u k" "u \<in> set (adj G y)"
        using Suc.IH assms by (auto simp: sym_adj_def)
      then show ?thesis unfolding ball_front by blast
    qed
  qed
  show ?case using step by blast
qed

lemma first_level_sym:
  "sym_adj G \<Longrightarrow> first_level G s t k fuel = first_level G t s k fuel"
  by (induction fuel arbitrary: k) (simp_all add: ball_sym)

lemma shortest_path_length_sym:
  "sym_adj G \<Longrightarrow> shortest_path_length G s t = shortest_path_length G t s"
  by (auto simp: shortest_path_length_def first_level_sym[of G s t])

subsection \<open>Taking an edge out and putting it back\<close>

lemma update_commute:
  "k \<in> fst ` set al \<Longrightarrow> k' \<in> fst ` set al \<Longrightarrow> k \<noteq> k' \<Longrightarrow>
   AList.update k v (AList.update k' v' al) = AList.update k' v' (AList.update k v al)"
proof (induction al)
  case Nil
  then show ?case by simp
next
  case (Cons p ps)
  show ?case
  proof (cases "fst p = k \<or> fst p = k'")
    case True
    then show ?thesis using Cons.prems(3) by (cases p) auto
  next
    case False
    then show ?thesis using Cons by (cases p) auto
  qed
qed

lemma has_node_keys: "has_node G n \<longleftrightarrow> n \<in> fst ` set G"
  by (simp add: has_node_def map_of_eq_None_iff)

lemma has_node_map_of: "has_node G n \<Longrightarrow> map_of G n = Some (adj G n)"
  by (cases "map_of G n") (auto simp: has_node_def adj_def)

lemma has_edge_nodes: "wf_graph G \<Longrightarrow> has_edge G a b \<Longrightarrow> has_node G a \<and> has_node G b"
  using has_edge_sym[of G a b]
  by (auto simp: has_edge_def has_node_def split: option.splits)

lemma adj_update: "adj (AList.update k v G) x = (if x = k then v else adj G x)"
  by (simp add: adj_def update_conv')

lemma has_node_update: "has_node (AList.update k v G) x \<longleftrightarrow> x = k \<or> has_node G x"
  by (simp add: has_node_def update_conv')

lemma remove_edge_wf:
  assumes wf: "wf_graph G" and e: "has_edge G a b"
  shows "remove_edge G a b = (Inr (), without_edge G a b)"
proof -
  from has_edge_nodes[OF wf e] have a: "map_of G a = Some (adj G a)" and b: "map_of G b = Some (adj G b)"
    by (auto dest: has_node_map_of)
  have ba: "b \<in> set (adj G a)" using e by (simp add: has_edge_adj)
  hence ab: "a \<in> set (adj G b)" using wf by (simp add: adj_sym)
  show ?thesis
  proof (cases "a = b")
    case True
    then show ?thesis using a ba by (simp add: remove_edge_def without_edge_def)
  next
    case False
    then show ?thesis using a b ba ab
      by (simp add: remove_edge_def without_edge_def update_conv' Let_def)
  qed
qed

lemma adj_without_edge:
  "set (adj (without_edge G a b) x) =
     set (adj G x) - (if x = a then {b} else {}) - (if x = b then {a} else {})"
  by (auto simp: without_edge_def adj_update)

lemma has_node_without_edge:
  "has_node G a \<Longrightarrow> has_node G b \<Longrightarrow> has_node (without_edge G a b) x = has_node G x"
  by (auto simp: without_edge_def has_node_update)

lemma length_update_present:
  "k \<in> fst ` set al \<Longrightarrow> length (AList.update k v al) = length al"
  by (induction al) auto

lemma keys_update: "fst ` set (AList.update k v al) = insert k (fst ` set al)"
  using AList.dom_update[of k v al] by simp

lemma length_without_edge:
  "has_node G a \<Longrightarrow> has_node G b \<Longrightarrow> length (without_edge G a b) = length G"
  by (simp add: without_edge_def length_update_present keys_update has_node_keys)

lemma sym_adj_without_edge: "sym_adj G \<Longrightarrow> sym_adj (without_edge G a b)"
  unfolding sym_adj_def adj_without_edge by auto

lemma without_edge_commute:
  "has_node G a \<Longrightarrow> has_node G b \<Longrightarrow> without_edge G a b = without_edge G b a"
  by (cases "a = b") (auto simp: without_edge_def has_node_keys intro: update_commute)

lemma add_edge_nodes:
  assumes "has_node G u" "has_node G v"
  shows "add_edge G u v =
     AList.update v (set_key u (adj (AList.update u (set_key v (adj G u)) G) v))
       (AList.update u (set_key v (adj G u)) G)"
  using assms by (simp add: add_edge_def add_node_def Let_def)

lemma set_set_key: "set (set_key k ks) = insert k (set ks)"
  by (auto simp: set_key_def)

lemma adj_add_edge:
  assumes "has_node G u" "has_node G v"
  shows "set (adj (add_edge G u v) x) =
     set (adj G x) \<union> (if x = u then {v} else {}) \<union> (if x = v then {u} else {})"
  by (auto simp: add_edge_nodes[OF assms] adj_update set_set_key)

lemma has_node_add_edge:
  "has_node G u \<Longrightarrow> has_node G v \<Longrightarrow> has_node (add_edge G u v) x = has_node G x"
  by (auto simp: add_edge_nodes has_node_update)

lemma add_edge_commute:
  assumes "has_node G u" "has_node G v"
  shows "add_edge G u v = add_edge G v u"
proof (cases "u = v")
  case True
  then show ?thesis by simp
next
  case False
  then show ?thesis
    using assms update_commute[of u G v]
    by (simp add: add_edge_nodes adj_update has_node_keys)
qed

subsection \<open>The shortest path feature\<close>

lemma shortest_path_length_cases:
  "has_node G s \<Longrightarrow> has_node G t \<Longrightarrow>
   shortest_path_length G s t = Inl NetworkXNoPath \<or> (\<exists>d. shortest_path_length G s t = Inr d)"
  by (auto simp: shortest_path_length_def split: option.splits)

lemma path_length_try_edge:
  assumes "wf_graph G" "has_edge G a b"
  shows "path_length_try G a b =
     (case shortest_path_length (without_edge G a b) a b of
        Inl e \<Rightarrow> (Inl e, without_edge G a b)
      | Inr d \<Rightarrow> (Inr d, add_edge (without_edge G a b) a b))"
  using assms by (simp add: path_length_try_def remove_edge_wf)

lemma path_length_feature_edge:
  assumes "wf_graph G" "has_edge G a b"
  shows "path_length_feature G a b =
     (case shortest_path_length (without_edge G a b) a b of
        Inl e \<Rightarrow> (Inr (- 1), without_edge G a b)
      | Inr d \<Rightarrow> (Inr (real d), add_edge (without_edge G a b) a b))"
proof -
  have n: "has_node (without_edge G a b) a" "has_node (without_edge G a b) b"
    using has_edge_nodes[OF assms] by (simp_all add: has_node_without_edge)
  show ?thesis
    using shortest_path_length_cases[OF n]
    by (auto simp: path_length_feature_def path_length_try_edge[OF assms])
qed

lemma path_length_feature_no_edge:
  assumes "has_node G a" "has_node G b" "\<not> has_edge G a b"
  shows "path_length_feature G a b =
     (case shortest_path_length G a b of
        Inl e \<Rightarrow> (Inr (- 1), G)
      | Inr d \<Rightarrow> (Inr (real d), G))"
  using shortest_path_length_cases[OF assms(1,2)] assms(3)
  by (auto simp: path_length_feature_def path_length_try_def)

lemma path_length_feature_sym:
  assumes wf: "wf_graph G" and a: "has_node G a" and b: "has_node G b"
  shows "path_length_feature G a b = path_length_feature G b a"
proof (cases "has_edge G a b")
  case True
  then have e': "has_edge G b a" using wf by (simp add: has_edge_sym)
  have n: "has_node (without_edge G a b) a" "has_node (without_edge G a b) b"
    using a b by (simp_all add: has_node_without_edge)
  have s: "sym_adj (without_edge G a b)"
    using wf by (simp add: wf_graph_sym_adj sym_adj_without_edge)
  have c: "without_edge G b a = without_edge G a b"
    using b a by (rule without_edge_commute)
  have "path_length_feature G b a =
     (case shortest_path_length (without_edge G a b) b a of
        Inl e \<Rightarrow> (Inr (- 1), without_edge G a b)
      | Inr d \<Rightarrow> (Inr (real d), add_edge (without_edge G a b) b a))"
    unfolding path_length_feature_edge[OF wf e'] c ..
  then show ?thesis
    by (simp only: path_length_feature_edge[OF wf True]
        shortest_path_length_sym[OF s, of a b] add_edge_commute[OF n])
next
  case False
  then have e': "\<not> has_edge G b a" using wf by (simp add: has_edge_sym)
  show ?thesis
    using shortest_path_length_sym[OF wf_graph_sym_adj[OF wf], of a b]
    by (simp add: path_length_feature_no_edge[OF a b False] path_length_feature_no_edge[OF b a e'])
qed

section \<open>Metric values\<close>

lemma custom_jaccard_value:
  assumes "has_node G a" "has_node G b"
  shows "custom_jaccard_coefficient G a b = Inr (jaccard_value G a b)"
proof -
  have "custom_jaccard_coefficient G a b =
     (if card (set (adj G a) \<union> set (adj G b)) = 0 then Inr 0
      else py_truediv (real (card (set (adj G a) \<inter> set (adj G b))))
             (real (card (set (adj G a) \<union> set (adj G b)))))"
    using assms
    by (simp only: custom_jaccard_coefficient_def neighbors_def has_node_map_of and_then_def
        Let_def option.case sum.case)
  then show ?thesis
    by (simp add: jaccard_value_def py_truediv_def)
qed

lemma shared_neighbors_ratio_nodes:
  assumes "has_node G a" "has_node G b"
  shows "shared_neighbors_ratio G a b =
     (if int (card (set (adj G a))) + int (card (set (adj G b))) > 0
      then py_truediv (real_of_int (int (card (set (adj G a) \<inter> set (adj G b)))))
       (real_of_int (int (card (set (adj G a))) + int (card (set (adj G b))) - int (card (set (adj G a) \<inter> set (adj G b)))))
      else Inr 0)"
    using assms
    by (simp only: shared_neighbors_ratio_def neighbors_def has_node_map_of and_then_def Let_def
        option.case sum.case)

lemma shared_neighbors_ratio_value:
  assumes "has_node G a" "has_node G b"
  shows "shared_neighbors_ratio G a b = Inr (jaccard_value G a b)"
proof -
  let ?A = "set (adj G a)" and ?B = "set (adj G b)"
  have c: "card ?A + card ?B = card (?A \<union> ?B) + card (?A \<inter> ?B)"
    by (rule card_Un_Int) simp_all
  have d: "int (card ?A) + int (card ?B) - int (card (?A \<inter> ?B)) = int (card (?A \<union> ?B))"
    using c by linarith
  show ?thesis
  proof (cases "?A \<union> ?B = {}")
    case True
    then have "card ?A = 0" "card ?B = 0" by simp_all
    then show ?thesis using True
      unfolding shared_neighbors_ratio_nodes[OF assms] jaccard_value_def by simp
  next
    case False
    then have u: "card (?A \<union> ?B) > 0" by (simp add: card_gt_0_iff)
    with c have p: "int (card ?A) + int (card ?B) > 0" by linarith
    show ?thesis
      unfolding shared_neighbors_ratio_nodes[OF assms] jaccard_value_def d py_truediv_def
      using False u p by simp
  qed
qed

lemma shared_neighbors_value:
  "has_node G a \<Longrightarrow> has_node G b \<Longrightarrow> shared_neighbors_feature G a b = jaccard_value G a b"
  by (simp add: shared_neighbors_feature_def shared_neighbors_ratio_value)

lemma structural_features_value:
  assumes "wf_graph G" "has_node G a" "has_node G b"
  shows "structural_features G a b =
     Inr [real (card (cn_set G a b)), jaccard_value G a b, real (deg G a * deg G b),
          adamic_adar_value G a b, resource_allocation_value G a b]"
proof -
  from common_neighbors_set[OF assms(2,3,1)] obtain cn where cn:
    "common_neighbors G a b = Inr cn" "distinct cn" "set cn = cn_set G a b" by blast
  have l: "length cn = card (cn_set G a b)"
    using cn(2,3) distinct_card[of cn] by simp
  show ?thesis
    unfolding structural_features_def
    by (simp only: cn(1) custom_jaccard_value[OF assms(2,3)] degree_deg[OF assms(2)]
        degree_deg[OF assms(3)] adamic_adar_sum[OF assms(2,3,1)]
        resource_allocation_sum[OF assms(2,3,1)] and_then_def sum.case l
        adamic_adar_value_def resource_allocation_value_def)
qed

lemma cn_set_commute: "cn_set G a b = cn_set G b a"
  by (auto simp: cn_set_def)



lemma cosine_similarity_ok: "length u = length v \<Longrightarrow> \<exists>c. cosine_similarity u v = Inr c"
  by (simp add: cosine_similarity_def np_dot_def and_then_def Let_def)

lemma matching_topics_ok: "length u = length v \<Longrightarrow> \<exists>m. matching_topics u v = Inr m"
  by (simp add: matching_topics_def np_logical_and_def and_then_def Let_def)

lemma attribute_features_absent:
  "node_features a = None \<or> node_features b = None \<Longrightarrow>
   attribute_features node_features a b = Inr [0, 0, 0]"
  by (auto simp: attribute_features_def split: option.splits)

lemma attribute_features_ok:
  assumes "wf_attrs node_features"
  shows "\<exists>x y z. attribute_features node_features a b = Inr [x, y, z]"
proof (cases "node_features a = None \<or> node_features b = None")
  case True
  then show ?thesis by (simp add: attribute_features_absent)
next
  case False
  then obtain u v where uv: "node_features a = Some u" "node_features b = Some v" by auto
  with assms have l: "length u = length v" unfolding wf_attrs_def by blast
  from cosine_similarity_ok[OF l] matching_topics_ok[OF l] show ?thesis
    by (auto simp: attribute_features_def uv and_then_def)
qed

lemma path_length_feature_ok:
  assumes "wf_graph G" "has_node G a" "has_node G b"
  shows "path_length_feature G a b =
     (if has_edge G a b then
        (case shortest_path_length (without_edge G a b) a b of
           Inl e \<Rightarrow> (Inr (- 1), without_edge G a b)
         | Inr d \<Rightarrow> (Inr (real d), add_edge (without_edge G a b) a b))
      else (Inr (distance_or_sentinel G a b), G))"
proof (cases "has_edge G a b")
  case True
  then show ?thesis by (simp add: path_length_feature_edge[OF assms(1)])
next
  case False
  then show ?thesis
    by (simp add: path_length_feature_no_edge[OF assms(2,3)] distance_or_sentinel_def
        split: sum.splits)
qed

lemma path_length_feature_value:
  assumes "wf_graph G" "has_node G a" "has_node G b"
  shows "\<exists>G1. path_length_feature G a b =
     (Inr (if has_edge G a b then distance_or_sentinel (without_edge G a b) a b
           else distance_or_sentinel G a b), G1)"
  unfolding path_length_feature_ok[OF assms]
  by (auto simp: distance_or_sentinel_def split: sum.splits)

lemma extract_features_nodes:
  assumes "wf_graph G" "has_node G a" "has_node G b"
    and "path_length_feature G a b = (Inr pl, G1)"
    and "attribute_features node_features a b = Inr as"
  shows "extract_features G node_features a b =
     (Inr ([real (card (cn_set G a b)), jaccard_value G a b, real (deg G a * deg G b),
          adamic_adar_value G a b, resource_allocation_value G a b, pl] @ as @
          [shared_neighbors_feature G1 a b]), G1)"
  using assms(2-)
  by (simp add: extract_features_def structural_features_value[OF assms(1-3)])

lemma shortest_path_length_self: "has_node G n \<Longrightarrow> shortest_path_length G n n = Inr 0"
  by (cases G) (auto simp: shortest_path_length_def has_node_def)

lemma has_edge_without_edge:
  "has_edge (without_edge G a b) u v \<longleftrightarrow> has_edge G u v \<and> {u, v} \<noteq> {a, b}"
  by (auto simp: has_edge_adj adj_without_edge doubleton_eq_iff)


lemma extract_features_value:
  assumes "wf_graph G" "wf_attrs node_features" "has_node G a" "has_node G b"
  shows "\<exists>G1 x y z. extract_features G node_features a b =
     (Inr [real (card (cn_set G a b)), jaccard_value G a b, real (deg G a * deg G b),
          adamic_adar_value G a b, resource_allocation_value G a b,
          (if has_edge G a b then distance_or_sentinel (without_edge G a b) a b
           else distance_or_sentinel G a b),
          x, y, z, shared_neighbors_feature G1 a b], G1)
     \<and> attribute_features node_features a b = Inr [x, y, z]
     \<and> fst (path_length_feature G a b) = Inr (if has_edge G a b then distance_or_sentinel (without_edge G a b) a b
           else distance_or_sentinel G a b) \<and> snd (path_length_feature G a b) = G1"
proof -
  from path_length_feature_value[OF assms(1,3,4)] obtain G1 where
    p: "path_length_feature G a b =
     (Inr (if has_edge G a b then distance_or_sentinel (without_edge G a b) a b
           else distance_or_sentinel G a b), G1)" by blast
  from attribute_features_ok[OF assms(2)] obtain x y z where
    t: "attribute_features node_features a b = Inr [x, y, z]" by blast
  show ?thesis
    using extract_features_nodes[OF assms(1,3,4) p t] p t by auto
qed

section \<open>Symmetry of the metrics\<close>

lemma zip_swap_map:
  "map (\<lambda>(x, y). f x y) (zip xs ys) = map (\<lambda>(y, x). f x y) (zip ys xs)"
proof (induction xs arbitrary: ys)
  case Nil
  then show ?case by simp
next
  case (Cons x xs)
  then show ?case by (cases ys) auto
qed



lemma np_mul_commute: "np_mul x y = np_mul y x"
  by (cases x; cases y) (simp_all add: mult.commute)










lemma np_logical_and_commute: "np_logical_and xs ys = np_logical_and ys xs"
proof -
  have "map (\<lambda>(x, y). x \<and> y) (zip xs ys) = map (\<lambda>(y, x). x \<and> y) (zip ys xs)"
    by (rule zip_swap_map)
  also have "\<dots> = map (\<lambda>(x, y). x \<and> y) (zip ys xs)"
    by (simp add: conj_commute case_prod_unfold)
  finally show ?thesis
    by (auto simp: np_logical_and_def conj_commute)
qed

lemma matching_topics_commute: "matching_topics u v = matching_topics v u"
  by (simp only: matching_topics_def Let_def
      np_logical_and_commute[of "map (\<lambda>x. x \<noteq> 0) u"])





section \<open>The correlation entry\<close>

lemma quadratic_pairs:
  fixes ps :: "(real \<times> real) list"
  shows "sum_list (map (\<lambda>(a, b). (a * t - b)\<^sup>2) ps) =
     sum_list (map (\<lambda>(a, b). a * a) ps) * t\<^sup>2
     - 2 * sum_list (map (\<lambda>(a, b). a * b) ps) * t
     + sum_list (map (\<lambda>(a, b). b * b) ps)"
  by (induction ps) (auto simp: power2_eq_square algebra_simps)

lemma squares_zero_products_zero:
  fixes ps :: "(real \<times> real) list"
  assumes "sum_list (map (\<lambda>(a, b). a * a) ps) = 0"
  shows "sum_list (map (\<lambda>(a, b). a * b) ps) = 0"
  using assms
proof (induction ps)
  case Nil
  then show ?case by simp
next
  case (Cons p ps)
  obtain a b where p: "p = (a, b)" by (cases p)
  have n: "0 \<le> sum_list (map (\<lambda>(a, b). a * a) ps)"
    by (rule sum_list_nonneg) auto
  from Cons.prems p have "a * a + sum_list (map (\<lambda>(a, b). a * a) ps) = 0" by simp
  with n have "a * a = 0" "sum_list (map (\<lambda>(a, b). a * a) ps) = 0"
    using zero_le_square[of a] by linarith+
  with Cons.IH p show ?case by simp
qed

lemma cauchy_schwarz_pairs:
  fixes ps :: "(real \<times> real) list"
  shows "(sum_list (map (\<lambda>(a, b). a * b) ps))\<^sup>2
     \<le> sum_list (map (\<lambda>(a, b). a * a) ps) * sum_list (map (\<lambda>(a, b). b * b) ps)"
  (is "?C\<^sup>2 \<le> ?A * ?B")
proof (cases "?A = 0")
  case True
  then show ?thesis using squares_zero_products_zero[OF True] by simp
next
  case False
  have "0 \<le> ?A" by (rule sum_list_nonneg) auto
  with False have A: "0 < ?A" by simp
  have "0 \<le> sum_list (map (\<lambda>(a, b). (a * (?C / ?A) - b)\<^sup>2) ps)"
    by (rule sum_list_nonneg) auto
  then have "0 \<le> ?A * (?C / ?A)\<^sup>2 - 2 * ?C * (?C / ?A) + ?B"
    by (simp only: quadratic_pairs)
  also have "?A * (?C / ?A)\<^sup>2 - 2 * ?C * (?C / ?A) + ?B = ?B - ?C\<^sup>2 / ?A"
    using A by (simp add: power2_eq_square field_simps)
  finally have "?C\<^sup>2 / ?A \<le> ?B" by simp
  then show ?thesis using A by (simp add: field_simps)
qed

lemma inner_self_pairs:
  "length u = length v \<Longrightarrow>
   inner u u = sum_list (map (\<lambda>(a, b). a * a) (zip u v)) \<and>
   inner v v = sum_list (map (\<lambda>(a, b). b * b) (zip u v))"
  by (induction u v rule: list_induct2) (simp_all add: inner_def)

lemma cauchy_schwarz:
  "length u = length v \<Longrightarrow> (inner u v)\<^sup>2 \<le> inner u u * inner v v"
  using cauchy_schwarz_pairs[of "zip u v"] inner_self_pairs[of u v]
  by (simp add: inner_def)

lemma inner_self_nonneg: "0 \<le> inner u u"
  unfolding inner_def by (rule sum_list_nonneg) (auto simp: zip_same)

lemma np_sum_Fin: "foldl np_add (Fin a) (map Fin zs) = Fin (a + sum_list zs)"
  by (induction zs arbitrary: a) (simp_all add: add.assoc)

lemma np_row_dot_Fin: "np_row_dot (map Fin xs) (map Fin ys) = Fin (inner xs ys)"
proof -
  have "map (\<lambda>(x, y). np_mul x y) (zip (map Fin xs) (map Fin ys))
      = map Fin (map (\<lambda>(a, b). a * b) (zip xs ys))"
    by (induction xs arbitrary: ys) (auto simp: zip_Cons1 split: list.splits)
  then show ?thesis
    unfolding np_row_dot_def np_sum_def inner_def
    by (simp only: np_sum_Fin add_0_left)
qed

lemma np_centre_Fin: "np_centre x = map Fin (centred x)"
proof (cases "x = []")
  case True
  then show ?thesis by (simp add: np_centre_def centred_def)
next
  case False
  then have "real (length x) \<noteq> 0" by simp
  then show ?thesis
    by (simp add: np_centre_def centred_def mean_def np_sub_def Let_def)
qed

lemma np_cov_entry_Fin:
  "np_cov_entry n (map Fin xs) (map Fin ys) =
     (if n \<le> 1 then np_signed_inf (inner xs ys) else Fin (inner xs ys / (real n - 1)))"
proof (cases "n \<le> 1")
  case True
  then have "int n - 1 \<le> 0" by simp
  then show ?thesis using True
    by (simp add: np_cov_entry_def np_row_dot_Fin np_signed_inf_def)
next
  case False
  then have "\<not> int n - 1 \<le> 0" "real n - 1 \<noteq> 0" by simp_all
  then show ?thesis using False
    by (simp add: np_cov_entry_def np_row_dot_Fin)
qed

lemma inner_centred_short:
  assumes "length x \<le> 1"
  shows "inner (centred x) (centred y) = 0"
proof (cases x)
  case Nil
  then show ?thesis by (simp add: inner_def centred_def)
next
  case (Cons a as)
  with assms have "x = [a]" by simp
  then show ?thesis
    by (cases "centred y") (simp_all add: inner_def centred_def mean_def)
qed

lemma inner_zero_left:
  assumes "length u = length v" "inner u u = 0"
  shows "inner u v = 0"
proof -
  from cauchy_schwarz[OF assms(1)] assms(2) have "(inner u v)\<^sup>2 \<le> 0" by simp
  then show ?thesis by simp
qed

lemma inner_commute: "inner u v = inner v u"
  using zip_swap_map[of "\<lambda>a b. a * b" u v]
  by (simp add: inner_def mult.commute case_prod_unfold)

lemma pearson_r_bounds:
  assumes "length x = length y"
  shows "- 1 \<le> pearson_r x y \<and> pearson_r x y \<le> 1"
proof -
  let ?c = "inner (centred x) (centred y)"
  let ?a = "inner (centred x) (centred x)" and ?b = "inner (centred y) (centred y)"
  have l: "length (centred x) = length (centred y)" using assms by (simp add: centred_def)
  have "?c\<^sup>2 \<le> ?a * ?b" by (rule cauchy_schwarz[OF l])
  then have "sqrt (?c\<^sup>2) \<le> sqrt (?a * ?b)" by (rule real_sqrt_le_mono)
  then have b: "\<bar>?c\<bar> \<le> sqrt ?a * sqrt ?b" by (simp add: real_sqrt_mult)
  have n: "0 \<le> sqrt ?a * sqrt ?b" by (simp add: inner_self_nonneg)
  show ?thesis
  proof (cases "sqrt ?a * sqrt ?b = 0")
    case True
    show ?thesis unfolding pearson_r_def True by simp
  next
    case False
    have p: "0 < sqrt ?a * sqrt ?b"
      using n False by linarith
    from b have "- (sqrt ?a * sqrt ?b) \<le> ?c" "?c \<le> sqrt ?a * sqrt ?b" by linarith+
    then show ?thesis unfolding pearson_r_def using p by (simp add: field_simps)
  qed
qed

lemma divide_chain:
  fixes c m p q s :: real
  assumes "0 < m" "p * q = s / m"
  shows "c / m / p / q = c / s"
proof -
  have "c / m / p / q = c / (m * (p * q))"
    by (simp add: divide_divide_eq_left mult.assoc)
  also have "m * (p * q) = s" using assms by simp
  finally show ?thesis .
qed

lemma np_corrcoef01_value:
  assumes l: "length x = length y"
  shows "np_corrcoef01 x y =
     Inr (if correlation_defined x y then Some (pearson_r x y) else None)"
proof -
  let ?n = "length x"
  let ?c = "inner (centred x) (centred y)"
  let ?a = "inner (centred x) (centred x)" and ?b = "inner (centred y) (centred y)"
  have lc: "length (centred x) = length (centred y)" using l by (simp add: centred_def)
  have e: "np_corrcoef01 x y =
     Inr (np_clip (np_div (np_div (np_cov_entry ?n (map Fin (centred x)) (map Fin (centred y)))
            (np_sqrt (np_cov_entry ?n (map Fin (centred x)) (map Fin (centred x)))))
            (np_sqrt (np_cov_entry ?n (map Fin (centred y)) (map Fin (centred y))))) (- 1) 1)"
    using l by (simp add: np_corrcoef01_def Let_def np_centre_Fin)
  show ?thesis
  proof (cases "?n \<le> 1")
    case True
    then have "?c = 0" by (simp add: inner_centred_short)
    then show ?thesis using True
      by (simp add: e np_cov_entry_Fin np_signed_inf_def correlation_defined_def)
  next
    case False
    then have m: "0 < real ?n - 1" by simp
    have a: "0 \<le> ?a" and b: "0 \<le> ?b" by (rule inner_self_nonneg)+
    have ea: "np_sqrt (np_cov_entry ?n (map Fin (centred x)) (map Fin (centred x)))
        = Fin (sqrt (?a / (real ?n - 1)))"
      using False a m by (simp add: np_cov_entry_Fin not_less)
    have eb: "np_sqrt (np_cov_entry ?n (map Fin (centred y)) (map Fin (centred y)))
        = Fin (sqrt (?b / (real ?n - 1)))"
      using False b m by (simp add: np_cov_entry_Fin not_less)
    have ec: "np_cov_entry ?n (map Fin (centred x)) (map Fin (centred y))
        = Fin (?c / (real ?n - 1))"
      using False by (simp add: np_cov_entry_Fin)
    show ?thesis
    proof (cases "?a = 0")
      case True
      then have "?c = 0" using inner_zero_left[OF lc] by simp
      then show ?thesis using True
        by (simp add: e ea eb ec np_signed_inf_def correlation_defined_def)
    next
      case az: False
      show ?thesis
      proof (cases "?b = 0")
        case True
        then have "inner (centred y) (centred x) = 0"
          using inner_zero_left[OF lc[symmetric]] by simp
        then have "?c = 0" by (simp add: inner_commute)
        then show ?thesis using True az m
          by (simp add: e ea eb ec np_signed_inf_def correlation_defined_def)
      next
        case bz: False
        have sa: "sqrt (?a / (real ?n - 1)) \<noteq> 0" and sb: "sqrt (?b / (real ?n - 1)) \<noteq> 0"
          using az bz m by simp_all
        have r: "?c / (real ?n - 1) / sqrt (?a / (real ?n - 1)) / sqrt (?b / (real ?n - 1))
            = pearson_r x y"
        proof -
          have "sqrt (?a / (real ?n - 1)) * sqrt (?b / (real ?n - 1))
              = sqrt ?a * sqrt ?b / (real ?n - 1)"
            using m by (simp add: real_sqrt_divide)
          from divide_chain[OF m this] show ?thesis by (simp only: pearson_r_def)
        qed
        have d: "correlation_defined x y"
          using False l az bz by (simp add: correlation_defined_def)
        have "np_div (np_div (Fin (?c / (real ?n - 1))) (Fin (sqrt (?a / (real ?n - 1)))))
                (Fin (sqrt (?b / (real ?n - 1)))) = Fin (pearson_r x y)"
          using sa sb r by simp
        then show ?thesis
          using pearson_r_bounds[OF l] d by (simp add: e ea eb ec)
      qed
    qed
  qed
qed

lemma correlation_feature_value:
  "correlation_feature u v = (if correlation_defined u v then pearson_r u v else 0)"
proof (cases "length u = length v")
  case True
  then show ?thesis by (simp add: correlation_feature_def np_corrcoef01_value)
next
  case False
  then show ?thesis
    by (simp add: correlation_feature_def np_corrcoef01_def correlation_defined_def)
qed

lemma attribute_features_present:
  assumes "node_features a = Some u" "node_features b = Some v" "length u = length v"
  shows "\<exists>c m. attribute_features node_features a b = Inr [c, correlation_feature u v, m]"
  using cosine_similarity_ok[OF assms(3)] matching_topics_ok[OF assms(3)]
  by (auto simp: attribute_features_def assms(1,2) and_then_def)


section \<open>Adequacy of the search\<close>

text \<open>
  The levels below the number of nodes are enough: on a well-formed graph the search
  reports no path exactly when no ball around the source holds the target, and a length it
  returns is the first level that does.
\<close>

lemma finite_ball: "finite (ball G s k)"
  by (induction k) auto

lemma ball_mono_le: "i \<le> j \<Longrightarrow> ball G s i \<subseteq> ball G s j"
proof (induction j)
  case 0
  then show ?case by simp
next
  case (Suc j)
  then show ?case by (cases "i = Suc j") auto
qed

lemma ball_stable:
  assumes "ball G s (Suc k) = ball G s k"
  shows "ball G s (k + j) = ball G s k"
proof (induction j)
  case 0
  show ?case by simp
next
  case (Suc j)
  have "ball G s (k + Suc j) = ball G s (k + j) \<union> (\<Union>u \<in> ball G s (k + j). set (adj G u))"
    by simp
  also have "\<dots> = ball G s (Suc k)" by (simp only: Suc ball.simps)
  finally show ?case using assms by simp
qed

lemma ball_grows:
  "(\<exists>j<k. ball G s (Suc j) = ball G s j) \<or> k + 1 \<le> card (ball G s k)"
proof (induction k)
  case 0
  show ?case by simp
next
  case (Suc k)
  show ?case
  proof (cases "\<exists>j<k. ball G s (Suc j) = ball G s j")
    case True
    then show ?thesis using less_Suc_eq by auto
  next
    case False
    with Suc have c: "k + 1 \<le> card (ball G s k)" by blast
    show ?thesis
    proof (cases "ball G s (Suc k) = ball G s k")
      case True
      then show ?thesis by blast
    next
      case False
      with ball_mono[of G s k] have "ball G s k \<subset> ball G s (Suc k)" by blast
      then have "card (ball G s k) < card (ball G s (Suc k))"
        by (rule psubset_card_mono[OF finite_ball])
      with c show ?thesis by simp
    qed
  qed
qed

lemma ball_subset_nodes:
  assumes "wf_graph G" "has_node G s"
  shows "ball G s k \<subseteq> fst ` set G"
proof (induction k)
  case 0
  show ?case using assms(2) by (simp add: has_node_keys)
next
  case (Suc k)
  have "set (adj G u) \<subseteq> fst ` set G" for u
    using has_node_neighbour[OF assms(1)] by (auto simp: has_node_keys)
  with Suc show ?case by auto
qed

lemma ball_bounded:
  assumes wf: "wf_graph G" and s: "has_node G s" and t: "t \<in> ball G s m"
  shows "t \<in> ball G s (length G - 1)"
proof -
  let ?N = "length G"
  have d: "distinct (map fst G)" using wf by (simp add: wf_graph_def)
  have cN: "card (fst ` set G) = ?N"
    using distinct_card[OF d] by simp
  from ball_grows[of "?N - 1" G s] show ?thesis
  proof
    assume "\<exists>j<?N - 1. ball G s (Suc j) = ball G s j"
    then obtain j where j: "j < ?N - 1" "ball G s (Suc j) = ball G s j" by blast
    show ?thesis
    proof (cases "m \<le> ?N - 1")
      case True
      with t ball_mono_le show ?thesis by blast
    next
      case False
      then have "m = j + (m - j)" using j(1) by simp
      then have "ball G s m = ball G s j" using ball_stable[OF j(2), of "m - j"] by simp
      with t ball_mono_le[of j "?N - 1" G s] j(1) show ?thesis by auto
    qed
  next
    assume "?N - 1 + 1 \<le> card (ball G s (?N - 1))"
    moreover have "?N > 0" using s by (cases G) (auto simp: has_node_def)
    ultimately have "card (fst ` set G) \<le> card (ball G s (?N - 1))" using cN by simp
    with ball_subset_nodes[OF wf s, of "?N - 1"] have "ball G s (?N - 1) = fst ` set G"
      by (intro card_seteq) auto
    with ball_subset_nodes[OF wf s, of m] t show ?thesis by auto
  qed
qed

lemma first_level_None_iff:
  "first_level G s t k fuel = None \<longleftrightarrow> (\<forall>j. k \<le> j \<and> j < k + fuel \<longrightarrow> t \<notin> ball G s j)"
proof (induction fuel arbitrary: k)
  case 0
  show ?case by auto
next
  case (Suc fuel)
  show ?case
  proof (cases "t \<in> ball G s k")
    case True
    then show ?thesis by auto
  next
    case False
    have "(\<forall>j. Suc k \<le> j \<and> j < Suc k + fuel \<longrightarrow> t \<notin> ball G s j)
       \<longleftrightarrow> (\<forall>j. k \<le> j \<and> j < k + Suc fuel \<longrightarrow> t \<notin> ball G s j)"
      using False by (metis Suc_leD Suc_leI add_Suc add_Suc_right le_neq_implies_less)
    with False Suc[of "Suc k"] show ?thesis by simp
  qed
qed

lemma first_level_Some:
  "first_level G s t k fuel = Some d \<Longrightarrow>
   k \<le> d \<and> t \<in> ball G s d \<and> (\<forall>j. k \<le> j \<and> j < d \<longrightarrow> t \<notin> ball G s j)"
proof (induction fuel arbitrary: k)
  case 0
  then show ?case by simp
next
  case (Suc fuel)
  show ?case
  proof (cases "t \<in> ball G s k")
    case True
    with Suc.prems show ?thesis by auto
  next
    case False
    with Suc.prems have "first_level G s t (Suc k) fuel = Some d" by simp
    from Suc.IH[OF this] False show ?thesis
      by (metis Suc_leD Suc_leI le_neq_implies_less)
  qed
qed

lemma first_level_complete:
  assumes "wf_graph G" "has_node G s"
  shows "first_level G s t 0 (length G) = None \<longleftrightarrow> (\<forall>k. t \<notin> ball G s k)"
proof
  assume n: "first_level G s t 0 (length G) = None"
  have p: "length G > 0" using assms(2) by (cases G) (auto simp: has_node_def)
  show "\<forall>k. t \<notin> ball G s k"
  proof
    fix k
    show "t \<notin> ball G s k"
    proof
      assume "t \<in> ball G s k"
      then have "t \<in> ball G s (length G - 1)" by (rule ball_bounded[OF assms])
      moreover have "t \<notin> ball G s (length G - 1)"
        using n p unfolding first_level_None_iff by simp
      ultimately show False by contradiction
    qed
  qed
next
  assume "\<forall>k. t \<notin> ball G s k"
  then show "first_level G s t 0 (length G) = None"
    by (simp add: first_level_None_iff)
qed

lemma shortest_path_length_NoPath_iff:
  assumes "wf_graph G" "has_node G s" "has_node G t"
  shows "shortest_path_length G s t = Inl NetworkXNoPath \<longleftrightarrow> (\<forall>k. t \<notin> ball G s k)"
  using first_level_complete[OF assms(1,2), of t] assms(2,3)
  by (auto simp: shortest_path_length_def split: option.splits)

lemma shortest_path_length_least:
  assumes "shortest_path_length G s t = Inr d"
  shows "t \<in> ball G s d \<and> (\<forall>j<d. t \<notin> ball G s j)"
proof -
  from assms have "first_level G s t 0 (length G) = Some d"
    by (auto simp: shortest_path_length_def split: if_splits option.splits)
  from first_level_Some[OF this] show ?thesis by simp
qed

text \<open>
  In terms of walks: a length the search returns is the least number of edges of a walk from
  the source to the target, and it reports no path exactly when there is no walk.
\<close>

lemma ball_walk:
  "t \<in> ball G s k \<longleftrightarrow> (\<exists>p. walk G (s # p) \<and> last (s # p) = t \<and> length p \<le> k)"
proof (induction k arbitrary: s)
  case 0
  show ?case by auto
next
  case (Suc k)
  have "(\<exists>q. walk G (s # q) \<and> last (s # q) = t \<and> length q \<le> Suc k)
      \<longleftrightarrow> t = s \<or> (\<exists>u p. u \<in> set (adj G s) \<and> walk G (u # p) \<and> last (u # p) = t \<and> length p \<le> k)"
    (is "?L \<longleftrightarrow> ?R")
  proof
    assume ?L
    then obtain q where q: "walk G (s # q)" "last (s # q) = t" "length q \<le> Suc k" by blast
    show ?R
    proof (cases q)
      case Nil
      with q show ?thesis by simp
    next
      case (Cons u p)
      with q have "u \<in> set (adj G s) \<and> walk G (u # p) \<and> last (u # p) = t \<and> length p \<le> k"
        by simp
      then show ?thesis by blast
    qed
  next
    assume ?R
    then show ?L
    proof
      assume "t = s"
      then have "walk G (s # []) \<and> last (s # []) = t \<and> length ([] :: node list) \<le> Suc k" by simp
      then show ?L by blast
    next
      assume "\<exists>u p. u \<in> set (adj G s) \<and> walk G (u # p) \<and> last (u # p) = t \<and> length p \<le> k"
      then obtain u p where "u \<in> set (adj G s)" "walk G (u # p)" "last (u # p) = t" "length p \<le> k"
        by blast
      then have "walk G (s # u # p) \<and> last (s # u # p) = t \<and> length (u # p) \<le> Suc k" by simp
      then show ?L by blast
    qed
  qed
  then show ?case
    unfolding ball_front using Suc.IH by auto
qed

lemma shortest_path_length_walk:
  assumes "shortest_path_length G s t = Inr d"
  shows "(\<exists>p. walk G (s # p) \<and> last (s # p) = t \<and> length p = d) \<and>
         (\<forall>p. walk G (s # p) \<and> last (s # p) = t \<longrightarrow> d \<le> length p)"
proof -
  from shortest_path_length_least[OF assms] have
    i: "t \<in> ball G s d" and l: "\<forall>j<d. t \<notin> ball G s j" by simp_all
  from i obtain p where p: "walk G (s # p)" "last (s # p) = t" "length p \<le> d"
    unfolding ball_walk by blast
  have low: "d \<le> length q" if "walk G (s # q)" "last (s # q) = t" for q
  proof (rule ccontr)
    assume "\<not> d \<le> length q"
    then have "length q < d" by simp
    moreover have "t \<in> ball G s (length q)" unfolding ball_walk using that by blast
    ultimately show False using l by blast
  qed
  from low[OF p(1,2)] p(3) have "length p = d" by simp
  with p low show ?thesis by blast
qed

lemma no_path_no_walk:
  assumes "wf_graph G" "has_node G s" "has_node G t"
  shows "shortest_path_length G s t = Inl NetworkXNoPath \<longleftrightarrow>
         \<not> (\<exists>p. walk G (s # p) \<and> last (s # p) = t)"
  unfolding shortest_path_length_NoPath_iff[OF assms] ball_walk by blast

section \<open>What a call does to the graph\<close>

lemma wf_graph_iff:
  "wf_graph G \<longleftrightarrow>
     distinct (map fst G) \<and> (\<forall>u. distinct (adj G u)) \<and> sym_adj G"
proof
  assume wf: "wf_graph G"
  have "distinct (adj G u)" for u
    using wf_graph_distinct_adj[OF wf, of u] by (cases "map_of G u") (auto simp: adj_def)
  with wf show "distinct (map fst G) \<and> (\<forall>u. distinct (adj G u)) \<and> sym_adj G"
    by (simp add: wf_graph_sym_adj wf_graph_def)
next
  assume r: "distinct (map fst G) \<and> (\<forall>u. distinct (adj G u)) \<and> sym_adj G"
  have "distinct ns \<and> (\<forall>v \<in> set ns. has_edge G v u)" if "(u, ns) \<in> set G" for u ns
  proof -
    from that r have "map_of G u = Some ns" by simp
    then have a: "adj G u = ns" by (simp add: adj_def)
    from r have "distinct (adj G u)" "\<forall>v. v \<in> set (adj G u) \<longrightarrow> u \<in> set (adj G v)"
      by (auto simp: sym_adj_def)
    then show ?thesis by (simp add: a has_edge_adj)
  qed
  with r show "wf_graph G" by (auto simp: wf_graph_def)
qed

lemma wf_graph_without_edge:
  assumes "wf_graph G"
  shows "wf_graph (without_edge G a b)"
proof -
  from assms have r: "distinct (map fst G)" "\<And>u. distinct (adj G u)" "sym_adj G"
    by (simp_all add: wf_graph_iff)
  have "distinct (map fst (without_edge G a b))"
    using r(1) by (simp add: without_edge_def distinct_update)
  moreover have "distinct (adj (without_edge G a b) u)" for u
    using r(2) by (simp add: without_edge_def adj_update distinct_removeAll)
  ultimately show ?thesis
    using sym_adj_without_edge[OF r(3)] by (simp add: wf_graph_iff)
qed

lemma ball_step: "u \<in> ball G s k \<Longrightarrow> v \<in> set (adj G u) \<Longrightarrow> v \<in> ball G s (Suc k)"
  by auto

lemma jaccard_value_cong:
  "set (adj G' a) = set (adj G a) \<Longrightarrow> set (adj G' b) = set (adj G b) \<Longrightarrow>
   jaccard_value G' a b = jaccard_value G a b"
  by (simp add: jaccard_value_def)

lemma adj_restored:
  assumes "wf_graph G" "has_edge G a b"
  shows "set (adj (add_edge (without_edge G a b) a b) x) = set (adj G x)"
proof -
  from has_edge_nodes[OF assms] have n: "has_node G a" "has_node G b" by simp_all
  then have n': "has_node (without_edge G a b) a" "has_node (without_edge G a b) b"
    by (simp_all add: has_node_without_edge)
  have "b \<in> set (adj G a)" "a \<in> set (adj G b)"
    using assms has_edge_sym[OF assms(1), of a b] by (simp_all add: has_edge_adj)
  then show ?thesis
    by (auto simp: adj_add_edge[OF n'] adj_without_edge)
qed

text \<open>No edge that was present is lost when the query returns a length.\<close>

lemma edges_kept_unless_no_path:
  assumes wf: "wf_graph G" and n: "has_node G a" "has_node G b"
    and p: "path_length_feature G a b = (Inr pl, G1)" and pos: "pl \<noteq> - 1"
  shows "has_edge G1 u v \<longleftrightarrow> has_edge G u v"
proof (cases "has_edge G a b")
  case True
  from p pos have "G1 = add_edge (without_edge G a b) a b"
    unfolding path_length_feature_edge[OF wf True] by (auto split: sum.splits)
  then show ?thesis by (simp add: has_edge_adj adj_restored[OF wf True])
next
  case False
  from p have "G1 = G"
    unfolding path_length_feature_no_edge[OF n False] by (auto split: sum.splits)
  then show ?thesis by simp
qed

text \<open>Without self-loops the two ratios agree, whatever the query does to the graph.\<close>

lemma shared_ratio_jaccard_loop_free:
  assumes wf: "wf_graph G" and n: "has_node G a" "has_node G b"
    and nl: "\<forall>x. \<not> has_edge G x x"
    and p: "path_length_feature G a b = (Inr pl, G1)"
  shows "shared_neighbors_feature G1 a b = jaccard_value G a b"
proof (cases "has_edge G a b")
  case False
  from p have "G1 = G"
    unfolding path_length_feature_no_edge[OF n False] by (auto split: sum.splits)
  then show ?thesis by (simp add: shared_neighbors_value[OF n])
next
  case True
  let ?H = "without_edge G a b"
  have nH: "has_node ?H a" "has_node ?H b" using n by (simp_all add: has_node_without_edge)
  show ?thesis
  proof (cases "shortest_path_length ?H a b")
    case (Inr d)
    with p have g: "G1 = add_edge ?H a b"
      unfolding path_length_feature_edge[OF wf True] by simp
    have "has_node G1 a" "has_node G1 b"
      using nH by (simp_all add: g has_node_add_edge)
    then have "shared_neighbors_feature G1 a b = jaccard_value G1 a b"
      by (rule shared_neighbors_value)
    also have "\<dots> = jaccard_value G a b"
      unfolding g by (rule jaccard_value_cong) (rule adj_restored[OF wf True])+
    finally show ?thesis .
  next
    case (Inl e)
    with p have g: "G1 = ?H"
      unfolding path_length_feature_edge[OF wf True] by simp
    from Inl shortest_path_length_cases[OF nH] have np: "shortest_path_length ?H a b = Inl NetworkXNoPath"
      by auto
    have far: "b \<notin> ball ?H a k" for k
      using np shortest_path_length_NoPath_iff[OF wf_graph_without_edge[OF wf] nH] by simp
    have e: "set (adj G a) \<inter> set (adj G b) = {}"
    proof (rule ccontr)
      assume "set (adj G a) \<inter> set (adj G b) \<noteq> {}"
      then obtain w where w: "w \<in> set (adj G a)" "w \<in> set (adj G b)" by blast
      with nl have "w \<noteq> a" "w \<noteq> b" by (auto simp: has_edge_adj)
      moreover from w(2) have "b \<in> set (adj G w)" using wf by (simp add: adj_sym)
      ultimately have "w \<in> set (adj ?H a)" "b \<in> set (adj ?H w)"
        using w(1) by (simp_all add: adj_without_edge)
      then have "b \<in> ball ?H a (Suc (Suc 0))"
        using ball_step[OF ball_step[OF ball_self[of a ?H 0]]] by blast
      with far show False by blast
    qed
    then have e': "set (adj ?H a) \<inter> set (adj ?H b) = {}"
      unfolding adj_without_edge by blast
    have "shared_neighbors_feature G1 a b = jaccard_value ?H a b"
      unfolding g by (rule shared_neighbors_value[OF nH])
    also have "\<dots> = 0" unfolding jaccard_value_def e' by simp
    also have "0 = jaccard_value G a b" unfolding jaccard_value_def e by simp
    finally show ?thesis .
  qed
qed

text \<open>The definitions that evaluate a call on a concrete graph.\<close>

lemmas eval_defs =
  extract_features_def has_node_def structural_features_def and_then_def common_neighbors_def
  custom_jaccard_coefficient_def neighbors_def degree_def custom_adamic_adar_index_def
  custom_resource_allocation_index_def py_truediv_def py_log_def path_length_feature_def
  path_length_try_def has_edge_def remove_edge_def shortest_path_length_def add_edge_def
  add_node_def set_key_def adj_def attribute_features_def shared_neighbors_feature_def
  shared_neighbors_ratio_def Let_def

text \<open>
  The graph after a call is the one the shortest path query leaves, whatever the attribute
  part does; so a bridge, an edge with no other path between its ends, is lost by the call
  made for it.
\<close>

lemma snd_extract_features:
  assumes "wf_graph G" "has_node G a" "has_node G b"
  shows "snd (extract_features G node_features a b) = snd (path_length_feature G a b)"
proof -
  from path_length_feature_value[OF assms] obtain pl G1 where
    p: "path_length_feature G a b = (Inr pl, G1)" by blast
  show ?thesis
    using assms(2,3)
    by (simp add: extract_features_def structural_features_value[OF assms] p split: sum.splits)
qed

lemma bridge_lost:
  assumes "wf_graph G" "has_edge G a b"
    and "shortest_path_length (without_edge G a b) a b = Inl NetworkXNoPath"
  shows "\<not> has_edge (snd (extract_features G node_features a b)) a b"
proof -
  from has_edge_nodes[OF assms(1,2)] have n: "has_node G a" "has_node G b" by simp_all
  have "snd (path_length_feature G a b) = without_edge G a b"
    by (simp add: path_length_feature_edge[OF assms(1,2)] assms(3))
  then show ?thesis
    by (simp add: snd_extract_features[OF assms(1) n] has_edge_without_edge)
qed

text \<open>
  Two calls in a row see different graphs: after the call for (1,2) on the graph with the
  single edge (1,2), the call for (2,1) finds both degrees 0.
\<close>

lemma second_call_sees_mutated_graph:
  "fst (extract_features (add_edge [] 1 2) (\<lambda>n. None) 1 2)
     = Inr [0, 0, 1, 0, 0, - 1, 0, 0, 0, 0] \<and>
   fst (extract_features (snd (extract_features (add_edge [] 1 2) (\<lambda>n. None) 1 2))
          (\<lambda>n. None) 2 1)
     = Inr [0, 0, 0, 0, 0, - 1, 0, 0, 0, 0]"
  by (simp add: eval_defs)

section \<open>The invariant of the graph\<close>

text \<open>A call leaves a well-formed graph well formed, so the calls of a run can follow one another.\<close>

lemma distinct_set_key: "distinct ks \<Longrightarrow> distinct (set_key k ks)"
  by (simp add: set_key_def)

lemma sym_adj_add_edge:
  assumes "sym_adj G" "has_node G u" "has_node G v"
  shows "sym_adj (add_edge G u v)"
  using assms(1) unfolding sym_adj_def adj_add_edge[OF assms(2,3)] by auto

lemma wf_graph_add_edge:
  assumes "wf_graph G" "has_node G u" "has_node G v"
  shows "wf_graph (add_edge G u v)"
proof -
  from assms(1) have r: "distinct (map fst G)" "\<And>x. distinct (adj G x)" "sym_adj G"
    by (simp_all add: wf_graph_iff)
  have "distinct (map fst (add_edge G u v))"
    using r(1) by (simp add: add_edge_nodes[OF assms(2,3)] distinct_update)
  moreover have "distinct (adj (add_edge G u v) x)" for x
    using r(2) by (simp add: add_edge_nodes[OF assms(2,3)] adj_update distinct_set_key)
  ultimately show ?thesis
    using sym_adj_add_edge[OF r(3) assms(2,3)] by (simp add: wf_graph_iff)
qed

lemma wf_graph_after_call:
  assumes "wf_graph G"
  shows "wf_graph (snd (extract_features G node_features a b))"
proof (cases "has_node G a \<and> has_node G b")
  case False
  then show ?thesis using assms by (auto simp: extract_features_def)
next
  case True
  then have n: "has_node G a" "has_node G b" by simp_all
  let ?H = "without_edge G a b"
  have nH: "has_node ?H a" "has_node ?H b" using n by (simp_all add: has_node_without_edge)
  have "wf_graph (snd (path_length_feature G a b))"
    unfolding path_length_feature_ok[OF assms n]
    using assms wf_graph_without_edge[OF assms, of a b]
      wf_graph_add_edge[OF wf_graph_without_edge[OF assms] nH]
    by (simp split: sum.splits)
  then show ?thesis by (simp only: snd_extract_features[OF assms n])
qed

text \<open>Every graph the loader builds, from the empty one by adding nodes and edges, is well formed.\<close>

lemma wf_graph_empty: "wf_graph []"
  by (simp add: wf_graph_def)

lemma has_node_add_node: "has_node (add_node G n) x \<longleftrightarrow> x = n \<or> has_node G x"
  by (auto simp: add_node_def has_node_update)

lemma wf_graph_add_node:
  assumes "wf_graph G"
  shows "wf_graph (add_node G n)"
proof (cases "has_node G n")
  case True
  then show ?thesis using assms by (simp add: add_node_def)
next
  case False
  from assms have r: "distinct (map fst G)" "\<And>x. distinct (adj G x)" "sym_adj G"
    by (simp_all add: wf_graph_iff)
  have e: "adj G n = []" using False by (simp add: adj_def has_node_def)
  have f: "n \<notin> set (adj G y)" for y
    using has_node_neighbour[OF assms, of n y] False by blast
  have "sym_adj (AList.update n [] G)"
    using r(3) e f unfolding sym_adj_def adj_update by auto
  moreover have "distinct (map fst (AList.update n [] G))"
    using r(1) by (simp add: distinct_update)
  moreover have "distinct (adj (AList.update n [] G) x)" for x
    using r(2) by (simp add: adj_update)
  ultimately show ?thesis
    using False by (simp add: add_node_def wf_graph_iff)
qed

lemma add_edge_via_nodes: "add_edge G u v = add_edge (add_node (add_node G u) v) u v"
proof -
  let ?G2 = "add_node (add_node G u) v"
  have "has_node ?G2 u" "has_node ?G2 v" by (simp_all add: has_node_add_node)
  then have "add_node ?G2 u = ?G2" "add_node (add_node ?G2 u) v = ?G2"
    by (simp_all add: add_node_def)
  then show ?thesis by (simp add: add_edge_def)
qed

lemma wf_graph_add_edge_any:
  assumes "wf_graph G"
  shows "wf_graph (add_edge G u v)"
proof -
  let ?G2 = "add_node (add_node G u) v"
  have "wf_graph ?G2" using assms by (intro wf_graph_add_node)
  moreover have "has_node ?G2 u" "has_node ?G2 v" by (simp_all add: has_node_add_node)
  ultimately have "wf_graph (add_edge ?G2 u v)" by (rule wf_graph_add_edge)
  then show ?thesis by (simp only: add_edge_via_nodes[of G u v])
qed

text \<open>
  With one attribute vector missing, the cosine, the correlation and the matching count are
  0, and the seven other features are those of any other attribute table; the shared
  neighbours ratio is the one of the graph the shortest path query leaves. On a graph without
  self-loops that is the ratio of the given graph.
\<close>

lemma absent_attributes_values:
  assumes "wf_graph G" "has_node G src" "has_node G dst"
    and "node_features src = None \<or> node_features dst = None"
  shows "\<exists>fs G1. extract_features G node_features src dst = (Inr fs, G1) \<and> length fs = 10 \<and>
           fs ! 6 = 0 \<and> fs ! 7 = 0 \<and> fs ! 8 = 0 \<and>
           structural_features G src dst = Inr (take 5 fs) \<and>
           path_length_feature G src dst = (Inr (fs ! 5), G1) \<and>
           fs ! 9 = shared_neighbors_feature G1 src dst \<and>
           take 6 fs = [real (card (cn_set G src dst)), jaccard_value G src dst,
                        real (deg G src * deg G dst), adamic_adar_value G src dst,
                        resource_allocation_value G src dst,
                        (if has_edge G src dst
                         then distance_or_sentinel (without_edge G src dst) src dst
                         else distance_or_sentinel G src dst)] \<and>
           (\<forall>other. wf_attrs other \<longrightarrow>
              (\<exists>fs'. extract_features G other src dst = (Inr fs', G1) \<and>
                     take 6 fs' = take 6 fs \<and> fs' ! 9 = fs ! 9))"
proof -
  from path_length_feature_value[OF assms(1-3)] obtain G1 where
    p: "path_length_feature G src dst =
     (Inr (if has_edge G src dst then distance_or_sentinel (without_edge G src dst) src dst
           else distance_or_sentinel G src dst), G1)" by blast
  have t: "attribute_features node_features src dst = Inr [0, 0, 0]"
    using assms(4) by (rule attribute_features_absent)
  have o: "\<exists>fs'. extract_features G other src dst = (Inr fs', G1) \<and>
        take 6 fs' = [real (card (cn_set G src dst)), jaccard_value G src dst,
                        real (deg G src * deg G dst), adamic_adar_value G src dst,
                        resource_allocation_value G src dst,
                        (if has_edge G src dst
                         then distance_or_sentinel (without_edge G src dst) src dst
                         else distance_or_sentinel G src dst)] \<and>
        fs' ! 9 = shared_neighbors_feature G1 src dst"
    if w: "wf_attrs other" for other
  proof -
    from attribute_features_ok[OF w] obtain x y z where
      t': "attribute_features other src dst = Inr [x, y, z]" by blast
    show ?thesis
      unfolding extract_features_nodes[OF assms(1-3) p t'] by simp
  qed
  show ?thesis
    unfolding extract_features_nodes[OF assms(1-3) p t] structural_features_value[OF assms(1-3)] p
    using o by simp
qed

lemma absent_attributes_loop_free:
  assumes "wf_graph G" "has_node G src" "has_node G dst"
    and "node_features src = None \<or> node_features dst = None"
    and "\<forall>x. \<not> has_edge G x x"
  shows "\<exists>fs G1. extract_features G node_features src dst = (Inr fs, G1) \<and> length fs = 10 \<and>
           fs ! 6 = 0 \<and> fs ! 7 = 0 \<and> fs ! 8 = 0 \<and>
           structural_features G src dst = Inr (take 5 fs) \<and>
           fst (path_length_feature G src dst) = Inr (fs ! 5) \<and>
           fs ! 9 = shared_neighbors_feature G src dst"
proof -
  from absent_attributes_values[OF assms(1-4)] obtain fs G1 where
    v: "extract_features G node_features src dst = (Inr fs, G1)" "length fs = 10"
      "fs ! 6 = 0" "fs ! 7 = 0" "fs ! 8 = 0" "structural_features G src dst = Inr (take 5 fs)"
      "path_length_feature G src dst = (Inr (fs ! 5), G1)"
      "fs ! 9 = shared_neighbors_feature G1 src dst"
    by blast
  have "shared_neighbors_feature G1 src dst = shared_neighbors_feature G src dst"
    by (simp only: shared_ratio_jaccard_loop_free[OF assms(1-3,5) v(7)]
        shared_neighbors_value[OF assms(2,3)])
  with v show ?thesis by simp
qed

text \<open>
  The end-to-end example of the specification: the attributes \<open>1 \<mapsto> [1,0]\<close>,
  \<open>2 \<mapsto> [1,0]\<close>, \<open>3 \<mapsto> [0,1]\<close>, the single edge (1,2) and the isolated node 3. The call
  for (1,3) finds no common neighbour, the degrees 1 and 0, no path, the cosine 0, the
  correlation \<open>-1\<close> and no matching entry.
\<close>

lemma end_to_end_example:
  "extract_features (add_node (add_edge [] 1 2) 3)
     (\<lambda>n. if n = 1 then Some [1, 0] else if n = 2 then Some [1, 0]
          else if n = 3 then Some [0, 1] else None) 1 3 =
     (Inr [0, 0, 0, 0, 0, - 1, 0, - 1, 0, 0], [(1, [2]), (2, [1]), (3, [])])"
  by (simp add: eval_defs cosine_similarity_def np_dot_def np_linalg_norm_def matching_topics_def
      np_logical_and_def correlation_feature_value correlation_defined_def pearson_r_def inner_def
      centred_def mean_def real_sqrt_divide)

section \<open>Rounding to binary64\<close>

text \<open>
  A value scaled into \<open>[2\<^sup>5\<^sup>2, 2\<^sup>5\<^sup>3)\<close> by a power of two is rounded to the nearest
  integer on that scale; this settles the double nearest to a given rational, or to the
  square root of one.
\<close>

lemma ulp_exponent_scaled:
  assumes "k \<le> 1074" "2 ^ 52 \<le> \<bar>x\<bar> * 2 ^ k" "\<bar>x\<bar> * 2 ^ k < 2 ^ 53"
  shows "ulp_exponent x = - int k"
proof -
  have p: "0 < \<bar>x\<bar>" using assms(2) by (cases "x = 0") auto
  have "2 powr (52 - real k) \<le> \<bar>x\<bar>"
    using assms(2) by (simp add: powr_diff powr_realpow field_simps)
  then have l: "52 - real k \<le> log 2 \<bar>x\<bar>"
    using p by (simp add: le_log_iff)
  have "\<bar>x\<bar> < 2 powr (53 - real k)"
    using assms(3) by (simp add: powr_diff powr_realpow field_simps)
  then have u: "log 2 \<bar>x\<bar> < 53 - real k"
    using p by (simp add: log_less_iff)
  have "\<lfloor>log 2 \<bar>x\<bar>\<rfloor> = 52 - int k"
    using l u by (intro floor_unique) auto
  then show ?thesis using assms(1) by (simp add: ulp_exponent_def)
qed

lemma f64_scaled:
  assumes "k \<le> 1074" "2 ^ 52 \<le> \<bar>x\<bar> * 2 ^ k" "\<bar>x\<bar> * 2 ^ k < 2 ^ 53"
  shows "f64 x = of_int (round_even (x * 2 ^ k)) / 2 ^ k"
proof -
  have n: "x \<noteq> 0" using assms(2) by auto
  have e: "(2 :: real) powr of_int (ulp_exponent x) = 1 / 2 ^ k"
    unfolding ulp_exponent_scaled[OF assms] by (simp add: powr_minus powr_realpow divide_simps)
  show ?thesis using n by (simp add: f64_def e)
qed

lemma round_even_nearest:
  assumes "of_int m - 1 / 2 < x" "x < of_int m + 1 / 2"
  shows "round_even x = m"
proof -
  have "\<lfloor>x\<rfloor> = m \<or> \<lfloor>x\<rfloor> = m - 1" using assms by linarith
  then show ?thesis
  proof
    assume f: "\<lfloor>x\<rfloor> = m"
    then have "x - of_int m < 1 / 2" using assms by simp
    then show ?thesis by (simp add: round_even_def f Let_def)
  next
    assume f: "\<lfloor>x\<rfloor> = m - 1"
    then have "1 / 2 < x - of_int (m - 1)" using assms by simp
    then show ?thesis by (simp add: round_even_def f Let_def)
  qed
qed

lemma f64_nearest:
  assumes "k \<le> 1074" "2 ^ 52 \<le> \<bar>x\<bar> * 2 ^ k" "\<bar>x\<bar> * 2 ^ k < 2 ^ 53"
    and "of_int m - 1 / 2 < x * 2 ^ k" "x * 2 ^ k < of_int m + 1 / 2"
  shows "f64 x = of_int m / 2 ^ k"
  by (simp only: f64_scaled[OF assms(1-3)] round_even_nearest[OF assms(4,5)])

lemma f64_tie_even:
  assumes "k \<le> 1074" "2 ^ 52 \<le> \<bar>x\<bar> * 2 ^ k" "\<bar>x\<bar> * 2 ^ k < 2 ^ 53"
    and "x * 2 ^ k = of_int m + 1 / 2"
  shows "f64 x = of_int (if even m then m else m + 1) / 2 ^ k"
proof -
  have "\<lfloor>of_int m + (1 / 2 :: real)\<rfloor> = m" by linarith
  then have "round_even (of_int m + 1 / 2) = (if even m then m else m + 1)"
    by (simp add: round_even_def Let_def)
  then show ?thesis by (simp only: f64_scaled[OF assms(1-3)] assms(4))
qed

lemma f64_exact:
  assumes "k \<le> 1074" "2 ^ 52 \<le> \<bar>x\<bar> * 2 ^ k" "\<bar>x\<bar> * 2 ^ k < 2 ^ 53"
    and "x * 2 ^ k = of_int m"
  shows "f64 x = x"
proof -
  have "f64 x = of_int m / 2 ^ k"
    using assms(4) by (intro f64_nearest[OF assms(1-3)]) simp_all
  also have "\<dots> = x" using assms(4)[symmetric] by simp
  finally show ?thesis .
qed

lemma f64_0: "f64 0 = 0"
  by (simp add: f64_def)

lemma f64_nearestI:
  assumes "k \<le> 1074" "2 ^ 52 \<le> \<bar>x\<bar> * 2 ^ k" "\<bar>x\<bar> * 2 ^ k < 2 ^ 53"
    and "of_int m - 1 / 2 < x * 2 ^ k" "x * 2 ^ k < of_int m + 1 / 2"
    and "y = of_int m / 2 ^ k"
  shows "f64 x = y"
  by (simp only: assms(6) f64_nearest[OF assms(1-5)])

lemma round_f64_0: "round_f64 0 = Fin 0"
  by (simp add: round_f64_def f64_0)

lemma round_f64_Fin:
  assumes "f64 x = y" "\<bar>y\<bar> < 2 ^ 1024"
  shows "round_f64 x = Fin y"
  using assms by (auto simp: round_f64_def Let_def)

lemma scaled_small:
  fixes m :: int
  assumes "\<bar>of_int m :: real\<bar> < 2 ^ 53 + 1"
  shows "\<bar>of_int m / 2 ^ k :: real\<bar> < 2 ^ 1024"
proof -
  have "\<bar>of_int m / 2 ^ k :: real\<bar> = \<bar>of_int m\<bar> / 2 ^ k" by simp
  also have "\<dots> \<le> \<bar>of_int m\<bar> / 1"
    by (intro divide_left_mono) simp_all
  also have "\<dots> < 2 ^ 53 + 1" using assms by simp
  also have "\<dots> < (2 :: real) ^ 1024" by simp
  finally show ?thesis .
qed

lemma round_f64_nearestI:
  assumes "k \<le> 1074" "2 ^ 52 \<le> \<bar>x\<bar> * 2 ^ k" "\<bar>x\<bar> * 2 ^ k < 2 ^ 53"
    and "of_int m - 1 / 2 < x * 2 ^ k" "x * 2 ^ k < of_int m + 1 / 2"
    and "y = of_int m / 2 ^ k"
  shows "round_f64 x = Fin y"
proof -
  have "\<bar>x * 2 ^ k\<bar> < 2 ^ 53" using assms(3) by (simp add: abs_mult)
  then have "\<bar>of_int m :: real\<bar> < 2 ^ 53 + 1" using assms(4,5) by linarith
  then have "\<bar>y\<bar> < 2 ^ 1024" unfolding assms(6) by (rule scaled_small)
  then show ?thesis
    using f64_nearestI[OF assms] by (intro round_f64_Fin)
qed

lemma round_f64_tieI:
  assumes "k \<le> 1074" "2 ^ 52 \<le> \<bar>x\<bar> * 2 ^ k" "\<bar>x\<bar> * 2 ^ k < 2 ^ 53"
    and "x * 2 ^ k = of_int m + 1 / 2"
    and "y = of_int (if even m then m else m + 1) / 2 ^ k"
  shows "round_f64 x = Fin y"
proof -
  have "\<bar>x * 2 ^ k\<bar> < 2 ^ 53" using assms(3) by (simp add: abs_mult)
  then have "\<bar>of_int (if even m then m else m + 1) :: real\<bar> < 2 ^ 53 + 1"
    unfolding assms(4) by (simp split: if_splits) linarith+
  then have "\<bar>y\<bar> < 2 ^ 1024" unfolding assms(5) by (rule scaled_small)
  then show ?thesis
    using f64_tie_even[OF assms(1-4)] assms(5) by (intro round_f64_Fin) simp
qed

lemma round_f64_sqrtI:
  assumes "k \<le> 1074" "(2 ^ 52 / 2 ^ k)\<^sup>2 \<le> v" "v < (2 ^ 53 / 2 ^ k)\<^sup>2"
    and "0 \<le> m" "((of_int m - 1 / 2) / 2 ^ k)\<^sup>2 < v" "v < ((of_int m + 1 / 2) / 2 ^ k)\<^sup>2"
    and "y = of_int m / 2 ^ k"
  shows "round_f64 (sqrt v) = Fin y"
proof -
  have p: "0 \<le> sqrt v" using assms(2) by (intro real_sqrt_ge_zero) (smt (verit) zero_le_power2)
  have 1: "2 ^ 52 / 2 ^ k \<le> sqrt v" using assms(2) by (rule real_le_rsqrt)
  have 2: "sqrt v < 2 ^ 53 / 2 ^ k" using assms(3) by (intro real_less_lsqrt) simp_all
  have 3: "(of_int m - 1 / 2) / 2 ^ k < sqrt v" using assms(5) by (rule real_less_rsqrt)
  have 4: "sqrt v < (of_int m + 1 / 2) / 2 ^ k"
    using assms(4,6) by (intro real_less_lsqrt) simp_all
  show ?thesis
  proof (rule round_f64_nearestI[OF assms(1) _ _ _ _ assms(7)])
    show "2 ^ 52 \<le> \<bar>sqrt v\<bar> * 2 ^ k" using 1 p by (simp add: field_simps)
    show "\<bar>sqrt v\<bar> * 2 ^ k < 2 ^ 53" using 2 p by (simp add: field_simps)
    show "of_int m - 1 / 2 < sqrt v * 2 ^ k" using 3 by (simp add: field_simps)
    show "sqrt v * 2 ^ k < of_int m + 1 / 2" using 4 by (simp add: field_simps)
  qed
qed





section \<open>The rounded features\<close>

subsection \<open>Exact arithmetic is the rounding that changes nothing\<close>

lemma fl_Fin: "fl Fin v = v"
  by (cases v) (simp_all add: fl_def)

lemma adamic_adar_loop_fl_Fin:
  "adamic_adar_loop_fl Fin G ws (Fin s) = map_sum id Fin (adamic_adar_loop G ws s)"
proof (induction ws arbitrary: s)
  case Nil
  then show ?case by simp
next
  case (Cons w ws)
  then show ?case
    by (cases "degree G w")
       (simp_all add: and_then_def py_log_fl_def py_log_def py_truediv_fl_def py_truediv_def
          fl_Fin)
qed

lemma resource_allocation_loop_fl_Fin:
  "resource_allocation_loop_fl Fin G ws (Fin s) = map_sum id Fin (resource_allocation_loop G ws s)"
proof (induction ws arbitrary: s)
  case Nil
  then show ?case by simp
next
  case (Cons w ws)
  then show ?case
    by (cases "degree G w") (simp_all add: and_then_def py_truediv_fl_def py_truediv_def fl_Fin)
qed

lemma custom_adamic_adar_index_fl_Fin:
  "custom_adamic_adar_index_fl Fin G a b = map_sum id Fin (custom_adamic_adar_index G a b)"
  by (cases "common_neighbors G a b")
     (simp_all add: custom_adamic_adar_index_fl_def custom_adamic_adar_index_def and_then_def
        adamic_adar_loop_fl_Fin)

lemma custom_resource_allocation_index_fl_Fin:
  "custom_resource_allocation_index_fl Fin G a b
     = map_sum id Fin (custom_resource_allocation_index G a b)"
  by (cases "common_neighbors G a b")
     (simp_all add: custom_resource_allocation_index_fl_def custom_resource_allocation_index_def
        and_then_def resource_allocation_loop_fl_Fin)

lemma custom_jaccard_coefficient_fl_Fin:
  "custom_jaccard_coefficient_fl Fin G a b = map_sum id Fin (custom_jaccard_coefficient G a b)"
  by (cases "neighbors G a"; cases "neighbors G b")
     (simp_all add: custom_jaccard_coefficient_fl_def custom_jaccard_coefficient_def and_then_def
        Let_def py_truediv_fl_def py_truediv_def fl_Fin)

lemma shared_neighbors_ratio_fl_Fin:
  "shared_neighbors_ratio_fl Fin G a b = map_sum id Fin (shared_neighbors_ratio G a b)"
  by (cases "neighbors G a"; cases "neighbors G b")
     (simp_all add: shared_neighbors_ratio_fl_def shared_neighbors_ratio_def and_then_def
        Let_def py_truediv_fl_def py_truediv_def fl_Fin)

lemma shared_neighbors_feature_fl_Fin:
  "shared_neighbors_feature_fl Fin G a b = Fin (shared_neighbors_feature G a b)"
  by (cases "shared_neighbors_ratio G a b")
     (simp_all add: shared_neighbors_feature_fl_def shared_neighbors_feature_def
        shared_neighbors_ratio_fl_Fin)

lemma structural_features_fl_Fin:
  "structural_features_fl Fin G a b = map_sum id (map Fin) (structural_features G a b)"
  by (cases "common_neighbors G a b"; cases "custom_jaccard_coefficient G a b";
      cases "degree G a"; cases "degree G b"; cases "custom_adamic_adar_index G a b";
      cases "custom_resource_allocation_index G a b")
     (simp_all add: structural_features_fl_def structural_features_def and_then_def
        custom_jaccard_coefficient_fl_Fin custom_adamic_adar_index_fl_Fin
        custom_resource_allocation_index_fl_Fin)

lemma np_sum_fl_Fin: "np_sum_fl Fin xs = np_sum xs"
  by (simp add: np_sum_fl_def np_sum_def fl_Fin)

lemma np_row_dot_fl_Fin: "np_row_dot_fl Fin xs ys = np_row_dot xs ys"
  by (simp add: np_row_dot_fl_def np_row_dot_def np_sum_fl_Fin fl_Fin)

lemma np_centre_fl_Fin: "np_centre_fl Fin x = np_centre x"
  using np_sum_Fin[of 0 x]
  by (simp add: np_centre_fl_def np_centre_def np_sum_fl_Fin np_sum_def fl_Fin)

lemma np_cov_entry_fl_Fin: "np_cov_entry_fl Fin n X Y = np_cov_entry n X Y"
  by (simp add: np_cov_entry_fl_def np_cov_entry_def np_row_dot_fl_Fin fl_Fin)

lemma np_corrcoef01_fl_Fin: "np_corrcoef01_fl Fin x y = np_corrcoef01 x y"
  by (simp add: np_corrcoef01_fl_def np_corrcoef01_def np_centre_fl_Fin np_cov_entry_fl_Fin
      fl_Fin)

lemma correlation_feature_fl_Fin: "correlation_feature_fl Fin u v = correlation_feature u v"
  by (simp add: correlation_feature_fl_def correlation_feature_def np_corrcoef01_fl_Fin)

lemma inner_self: "inner u u = sum_list (map (\<lambda>x. x * x) u)"
  by (induction u) (simp_all add: inner_def)

lemma np_linalg_norm_fl_Fin: "np_linalg_norm_fl Fin u = Fin (np_linalg_norm u)"
  using inner_self_nonneg[of u]
  by (simp add: np_linalg_norm_fl_def np_linalg_norm_def np_row_dot_fl_Fin np_row_dot_Fin
      fl_Fin inner_self)

lemma cosine_similarity_fl_Fin:
  "cosine_similarity_fl Fin u v = map_sum id Fin (cosine_similarity u v)"
proof (cases "length u = length v")
  case True
  have n: "np_linalg_norm u = 0 \<or> np_linalg_norm v = 0 \<or> np_linalg_norm u * np_linalg_norm v \<noteq> 0"
    by auto
  show ?thesis
    using True
    by (auto simp: cosine_similarity_fl_def cosine_similarity_def np_dot_fl_def np_dot_def
        and_then_def Let_def np_linalg_norm_fl_Fin np_row_dot_fl_Fin np_row_dot_Fin fl_Fin
        np_positive_def inner_def)
next
  case False
  then show ?thesis
    by (simp add: cosine_similarity_fl_def cosine_similarity_def np_dot_fl_def np_dot_def
        and_then_def)
qed

lemma attribute_features_fl_Fin:
  "attribute_features_fl Fin node_features a b
     = map_sum id (map Fin) (attribute_features node_features a b)"
proof (cases "node_features a")
  case None
  then show ?thesis
    by (cases "node_features b") (simp_all add: attribute_features_fl_def attribute_features_def)
next
  case u: (Some u)
  show ?thesis
  proof (cases "node_features b")
    case None
    then show ?thesis using u by (simp add: attribute_features_fl_def attribute_features_def)
  next
    case v: (Some v)
    show ?thesis
      by (cases "cosine_similarity u v"; cases "matching_topics u v")
         (simp_all add: attribute_features_fl_def attribute_features_def u v and_then_def
            cosine_similarity_fl_Fin correlation_feature_fl_Fin)
  qed
qed

lemma extract_features_fl_Fin:
  "extract_features_fl Fin G node_features a b =
     (map_sum id (map Fin) (fst (extract_features G node_features a b)),
      snd (extract_features G node_features a b))"
proof (cases "\<not> has_node G a \<or> \<not> has_node G b")
  case True
  then show ?thesis by (auto simp: extract_features_fl_def extract_features_def)
next
  case False
  obtain p G1 where p: "path_length_feature G a b = (p, G1)"
    by (cases "path_length_feature G a b")
  show ?thesis
    using False
    by (cases "structural_features G a b"; cases p; cases "attribute_features node_features a b")
       (simp_all add: extract_features_fl_def extract_features_def structural_features_fl_Fin
          attribute_features_fl_Fin shared_neighbors_feature_fl_Fin p)
qed

subsection \<open>What is symmetric under every rounding\<close>

text \<open>
  The lists of common neighbours of \<open>(a, b)\<close> and of \<open>(b, a)\<close> hold the same nodes, in
  the order of the adjacency of the first argument; a rounded sum over them depends on that
  order, whether it raises does not. The correlation entry is divided by the two standard
  deviations in the order of the arguments. Everything else is computed from sets, from
  integers, or by operations that commute.
\<close>

lemma adamic_adar_loop_fl_cases:
  "\<forall>w \<in> set ws. has_node G w \<Longrightarrow>
   ((\<exists>w \<in> set ws. deg G w > 1 \<and> rnd (ln (real (deg G w))) = Fin 0)
      \<longrightarrow> adamic_adar_loop_fl rnd G ws s = Inl ZeroDivisionError) \<and>
   (\<not> (\<exists>w \<in> set ws. deg G w > 1 \<and> rnd (ln (real (deg G w))) = Fin 0)
      \<longrightarrow> (\<exists>t. adamic_adar_loop_fl rnd G ws s = Inr t))"
proof (induction ws arbitrary: s)
  case Nil
  then show ?case by simp
next
  case (Cons w ws)
  then have w: "degree G w = Inr (deg G w)" and r: "\<forall>w \<in> set ws. has_node G w"
    by (simp_all add: degree_deg)
  show ?case
  proof (cases "deg G w > 1 \<and> rnd (ln (real (deg G w))) = Fin 0")
    case True
    then show ?thesis
      by (simp add: w and_then_def py_log_fl_def py_truediv_fl_def)
  next
    case False
    then show ?thesis
      using Cons.IH[OF r] by (auto simp: w and_then_def py_log_fl_def py_truediv_fl_def)
  qed
qed

lemma resource_allocation_loop_fl_ok:
  "\<forall>w \<in> set ws. has_node G w \<Longrightarrow> \<exists>t. resource_allocation_loop_fl rnd G ws s = Inr t"
proof (induction ws arbitrary: s)
  case Nil
  then show ?case by simp
next
  case (Cons w ws)
  then show ?case
    by (simp add: degree_deg and_then_def py_truediv_fl_def)
qed

lemma custom_jaccard_coefficient_fl_commute:
  "custom_jaccard_coefficient_fl rnd G a b = custom_jaccard_coefficient_fl rnd G b a"
  by (cases "map_of G a"; cases "map_of G b")
     (simp_all add: custom_jaccard_coefficient_fl_def neighbors_def and_then_def Let_def
        Int_commute Un_commute)

lemma custom_jaccard_coefficient_fl_ok:
  assumes "has_node G a" "has_node G b"
  shows "\<exists>j. custom_jaccard_coefficient_fl rnd G a b = Inr j"
  using assms
  by (simp add: custom_jaccard_coefficient_fl_def neighbors_def has_node_map_of and_then_def
      Let_def py_truediv_fl_def)

lemma structural_features_fl_sym:
  assumes "wf_graph G" "has_node G a" "has_node G b"
  shows "((\<exists>w. deg G w > 1 \<and> rnd (ln (real (deg G w))) = Fin 0) \<and>
          structural_features_fl rnd G a b = Inl ZeroDivisionError \<and>
          structural_features_fl rnd G b a = Inl ZeroDivisionError) \<or>
         (\<exists>c j d aa ra aa' ra'.
            structural_features_fl rnd G a b = Inr [c, j, d, aa, ra] \<and>
            structural_features_fl rnd G b a = Inr [c, j, d, aa', ra'])"
proof -
  from common_neighbors_set[OF assms(2,3,1)] obtain cn where cn:
    "common_neighbors G a b = Inr cn" "distinct cn" "set cn = cn_set G a b"
    "\<forall>w \<in> set cn. has_node G w" by blast
  from common_neighbors_set[OF assms(3,2,1)] obtain cn' where cn':
    "common_neighbors G b a = Inr cn'" "distinct cn'" "set cn' = cn_set G b a"
    "\<forall>w \<in> set cn'. has_node G w" by blast
  have s: "set cn' = set cn"
    by (simp add: cn(3) cn'(3) cn_set_commute[of G a b])
  have l: "length cn' = length cn"
    using cn(2) cn'(2) s distinct_card[of cn] distinct_card[of cn'] by simp
  from custom_jaccard_coefficient_fl_ok[OF assms(2,3)] obtain j where
    j: "custom_jaccard_coefficient_fl rnd G a b = Inr j" by blast
  then have j': "custom_jaccard_coefficient_fl rnd G b a = Inr j"
    by (simp add: custom_jaccard_coefficient_fl_commute[of rnd G b a])
  have aa: "custom_adamic_adar_index_fl rnd G a b = adamic_adar_loop_fl rnd G cn (Fin 0)"
    using cn(1) by (cases cn) (simp_all add: custom_adamic_adar_index_fl_def and_then_def)
  have aa': "custom_adamic_adar_index_fl rnd G b a = adamic_adar_loop_fl rnd G cn' (Fin 0)"
    using cn'(1) by (cases cn') (simp_all add: custom_adamic_adar_index_fl_def and_then_def)
  have ra: "custom_resource_allocation_index_fl rnd G a b
      = resource_allocation_loop_fl rnd G cn (Fin 0)"
    using cn(1) by (cases cn) (simp_all add: custom_resource_allocation_index_fl_def and_then_def)
  have ra': "custom_resource_allocation_index_fl rnd G b a
      = resource_allocation_loop_fl rnd G cn' (Fin 0)"
    using cn'(1) by (cases cn') (simp_all add: custom_resource_allocation_index_fl_def and_then_def)
  from resource_allocation_loop_fl_ok[OF cn(4)] obtain r where
    r: "resource_allocation_loop_fl rnd G cn (Fin 0) = Inr r" by blast
  from resource_allocation_loop_fl_ok[OF cn'(4)] obtain r' where
    r': "resource_allocation_loop_fl rnd G cn' (Fin 0) = Inr r'" by blast
  have m: "deg G b * deg G a = deg G a * deg G b" by (rule mult.commute)
  show ?thesis
  proof (cases "\<exists>w \<in> set cn. deg G w > 1 \<and> rnd (ln (real (deg G w))) = Fin 0")
    case True
    then have 1: "adamic_adar_loop_fl rnd G cn (Fin 0) = Inl ZeroDivisionError"
      using adamic_adar_loop_fl_cases[OF cn(4), of rnd "Fin 0"] by blast
    from True have 2: "adamic_adar_loop_fl rnd G cn' (Fin 0) = Inl ZeroDivisionError"
      using adamic_adar_loop_fl_cases[OF cn'(4), of rnd "Fin 0"] unfolding s by blast
    have "structural_features_fl rnd G a b = Inl ZeroDivisionError"
      "structural_features_fl rnd G b a = Inl ZeroDivisionError"
      by (simp_all add: structural_features_fl_def cn(1) cn'(1) j j' degree_deg[OF assms(2)]
          degree_deg[OF assms(3)] aa aa' 1 2 and_then_def)
    with True show ?thesis by blast
  next
    case False
    then obtain t where 1: "adamic_adar_loop_fl rnd G cn (Fin 0) = Inr t"
      using adamic_adar_loop_fl_cases[OF cn(4), of rnd "Fin 0"] by blast
    from False obtain t' where 2: "adamic_adar_loop_fl rnd G cn' (Fin 0) = Inr t'"
      using adamic_adar_loop_fl_cases[OF cn'(4), of rnd "Fin 0"] unfolding s by blast
    show ?thesis
      by (simp add: structural_features_fl_def cn(1) cn'(1) j j' degree_deg[OF assms(2)]
          degree_deg[OF assms(3)] aa aa' ra ra' r r' 1 2 and_then_def l m)
  qed
qed

lemma np_row_dot_fl_commute: "np_row_dot_fl rnd xs ys = np_row_dot_fl rnd ys xs"
proof -
  have "map (\<lambda>(x, y). fl rnd (np_mul x y)) (zip xs ys)
      = map (\<lambda>(y, x). fl rnd (np_mul x y)) (zip ys xs)"
    by (rule zip_swap_map)
  also have "\<dots> = map (\<lambda>(x, y). fl rnd (np_mul x y)) (zip ys xs)"
    by (simp add: np_mul_commute case_prod_unfold)
  finally show ?thesis by (simp add: np_row_dot_fl_def)
qed

lemma cosine_similarity_fl_commute:
  "cosine_similarity_fl rnd u v = cosine_similarity_fl rnd v u"
proof -
  have d: "np_dot_fl rnd u v = np_dot_fl rnd v u"
    using np_row_dot_fl_commute[of rnd "map Fin u" "map Fin v"] by (auto simp: np_dot_fl_def)
  have n: "np_mul (np_linalg_norm_fl rnd v) (np_linalg_norm_fl rnd u)
      = np_mul (np_linalg_norm_fl rnd u) (np_linalg_norm_fl rnd v)"
    by (rule np_mul_commute)
  show ?thesis
    by (simp only: cosine_similarity_fl_def d n Let_def)
qed

lemma attribute_features_fl_sym:
  "((\<exists>u v. node_features a = Some u \<and> node_features b = Some v \<and> length u \<noteq> length v) \<and>
    attribute_features_fl rnd node_features a b = Inl ValueError \<and>
    attribute_features_fl rnd node_features b a = Inl ValueError) \<or>
   (\<exists>cs co co' m. attribute_features_fl rnd node_features a b = Inr [cs, co, m] \<and>
         attribute_features_fl rnd node_features b a = Inr [cs, co', m])"
proof (cases "node_features a")
  case None
  then show ?thesis by (cases "node_features b") (simp_all add: attribute_features_fl_def)
next
  case u: (Some u)
  show ?thesis
  proof (cases "node_features b")
    case None
    then show ?thesis using u by (simp add: attribute_features_fl_def)
  next
    case v: (Some v)
    have c: "cosine_similarity_fl rnd v u = cosine_similarity_fl rnd u v"
      by (rule cosine_similarity_fl_commute)
    have m: "matching_topics v u = matching_topics u v"
      by (rule matching_topics_commute)
    show ?thesis
    proof (cases "length u = length v")
      case True
      then have "\<exists>cs. cosine_similarity_fl rnd u v = Inr cs"
        by (simp add: cosine_similarity_fl_def np_dot_fl_def and_then_def Let_def)
      then obtain cs where cs: "cosine_similarity_fl rnd u v = Inr cs" by blast
      from matching_topics_ok[OF True] obtain k where k: "matching_topics u v = Inr k"
        by blast
      show ?thesis
        by (simp add: attribute_features_fl_def u v c m cs k and_then_def)
    next
      case False
      then have "cosine_similarity_fl rnd u v = Inl ValueError"
        by (simp add: cosine_similarity_fl_def np_dot_fl_def and_then_def)
      with False show ?thesis
        by (simp add: attribute_features_fl_def u v c and_then_def)
    qed
  qed
qed

lemma shared_neighbors_feature_fl_commute:
  "shared_neighbors_feature_fl rnd G a b = shared_neighbors_feature_fl rnd G b a"
proof -
  have "shared_neighbors_ratio_fl rnd G a b = shared_neighbors_ratio_fl rnd G b a"
    by (cases "map_of G a"; cases "map_of G b")
       (simp_all add: shared_neighbors_ratio_fl_def neighbors_def and_then_def Let_def
          Int_commute add.commute)
  then show ?thesis by (simp only: shared_neighbors_feature_fl_def)
qed

lemma extract_features_fl_sym:
  assumes "wf_graph G"
  shows "snd (extract_features_fl rnd G node_features a b)
           = snd (extract_features_fl rnd G node_features b a) \<and>
         (((\<exists>w. deg G w > 1 \<and> rnd (ln (real (deg G w))) = Fin 0) \<and>
           fst (extract_features_fl rnd G node_features a b) = Inl ZeroDivisionError \<and>
           fst (extract_features_fl rnd G node_features b a) = Inl ZeroDivisionError) \<or>
          ((\<exists>u v. node_features a = Some u \<and> node_features b = Some v \<and> length u \<noteq> length v) \<and>
           fst (extract_features_fl rnd G node_features a b) = Inl ValueError \<and>
           fst (extract_features_fl rnd G node_features b a) = Inl ValueError) \<or>
          (\<exists>c j d aa ra pl cs co m s aa' ra' co'.
            fst (extract_features_fl rnd G node_features a b)
              = Inr [c, j, d, aa, ra, pl, cs, co, m, s] \<and>
            fst (extract_features_fl rnd G node_features b a)
              = Inr [c, j, d, aa', ra', pl, cs, co', m, s]))"
proof (cases "has_node G a \<and> has_node G b")
  case False
  then show ?thesis
    by (auto simp: extract_features_fl_def numeral_eq_Suc)
next
  case True
  then have n: "has_node G a" "has_node G b" by simp_all
  from path_length_feature_value[OF assms n] obtain pl G1 where
    p: "path_length_feature G a b = (Inr pl, G1)" by blast
  then have p': "path_length_feature G b a = (Inr pl, G1)"
    by (simp add: path_length_feature_sym[OF assms n(2,1)])
  note s = shared_neighbors_feature_fl_commute[of rnd G1 b a]
  from structural_features_fl_sym[OF assms n, of rnd] show ?thesis
  proof
    assume z: "(\<exists>w. deg G w > 1 \<and> rnd (ln (real (deg G w))) = Fin 0) \<and>
          structural_features_fl rnd G a b = Inl ZeroDivisionError \<and>
          structural_features_fl rnd G b a = Inl ZeroDivisionError"
    then have "extract_features_fl rnd G node_features a b = (Inl ZeroDivisionError, G)"
      "extract_features_fl rnd G node_features b a = (Inl ZeroDivisionError, G)"
      using n by (simp_all add: extract_features_fl_def)
    with z show ?thesis by simp
  next
    assume "\<exists>c j d aa ra aa' ra'.
            structural_features_fl rnd G a b = Inr [c, j, d, aa, ra] \<and>
            structural_features_fl rnd G b a = Inr [c, j, d, aa', ra']"
    then obtain c j d aa ra aa' ra' where
      f: "structural_features_fl rnd G a b = Inr [c, j, d, aa, ra]"
         "structural_features_fl rnd G b a = Inr [c, j, d, aa', ra']" by blast
    from attribute_features_fl_sym[of node_features a b rnd] show ?thesis
    proof
      assume v: "(\<exists>u v. node_features a = Some u \<and> node_features b = Some v \<and> length u \<noteq> length v) \<and>
        attribute_features_fl rnd node_features a b = Inl ValueError \<and>
        attribute_features_fl rnd node_features b a = Inl ValueError"
      then have "extract_features_fl rnd G node_features a b = (Inl ValueError, G1)"
        "extract_features_fl rnd G node_features b a = (Inl ValueError, G1)"
        using n by (simp_all add: extract_features_fl_def f p p')
      with v show ?thesis by simp
    next
      assume "\<exists>cs co co' m. attribute_features_fl rnd node_features a b = Inr [cs, co, m] \<and>
         attribute_features_fl rnd node_features b a = Inr [cs, co', m]"
      then show ?thesis using n by (auto simp: extract_features_fl_def f p p' s)
    qed
  qed
qed

lemma extract_features_fl_components:
  assumes "wf_graph G" "i \<in> {0, 1, 2, 5, 6, 8, 9}"
  shows "component i (extract_features_fl rnd G node_features a b)
       = component i (extract_features_fl rnd G node_features b a)"
  using extract_features_fl_sym[OF assms(1), of rnd node_features a b] assms(2)
  by (auto simp: component_def)


section \<open>Evaluations in binary64\<close>

text \<open>
  The roundings met when the correlation entry is computed for the vectors \<open>[0, 2, 13]\<close>
  and \<open>[0, 3, 6]\<close> in both orders, for the constant vector of three entries \<open>0.1\<close>,
  whose double is \<open>3602879701896397 / 2\<^sup>5\<^sup>5\<close>, and when \<open>1/3\<close>, \<open>1/3\<close> and \<open>1/4\<close> are
  added in both orders.
\<close>

lemma f64_value_1:
  "round_f64 (- 5) = Fin (- 5)"
  by (rule round_f64_nearestI[where k = 50 and m = "- 5629499534213120"]) simp_all

lemma f64_value_2:
  "round_f64 (- 3) = Fin (- 3)"
  by (rule round_f64_nearestI[where k = 51 and m = "- 6755399441055744"]) simp_all

lemma f64_value_3:
  "round_f64 (- (1 / 72057594037927936)) = Fin (- (1 / 72057594037927936))"
  by (rule round_f64_nearestI[where k = 108 and m = "- 4503599627370496"]) simp_all

lemma f64_value_4:
  "round_f64 (1 / 5192296858534827628530496329220096) = Fin (1 / 5192296858534827628530496329220096)"
  by (rule round_f64_nearestI[where k = 164 and m = "4503599627370496"]) simp_all

lemma f64_value_5:
  "round_f64 (3 / 10384593717069655257060992658440192) = Fin (3 / 10384593717069655257060992658440192)"
  by (rule round_f64_nearestI[where k = 164 and m = "6755399441055744"]) simp_all

lemma f64_value_6:
  "round_f64 (1 / 2596148429267413814265248164610048) = Fin (1 / 2596148429267413814265248164610048)"
  by (rule round_f64_nearestI[where k = 163 and m = "4503599627370496"]) simp_all

lemma f64_value_7:
  "round_f64 (3 / 5192296858534827628530496329220096) = Fin (3 / 5192296858534827628530496329220096)"
  by (rule round_f64_nearestI[where k = 163 and m = "6755399441055744"]) simp_all

lemma f64_value_8:
  "round_f64 (3 / 176504337485538752) = Fin (5515760546423087 / 324518553658426726783156020576256)"
  by (rule round_f64_nearestI[where k = 108 and m = "5515760546423087"]) simp_all

lemma f64_value_9:
  "round_f64 (1 / 10) = Fin (3602879701896397 / 36028797018963968)"
  by (rule round_f64_nearestI[where k = 56 and m = "7205759403792794"]) simp_all

lemma f64_value_10:
  "round_f64 (3602879701896397 / 36028797018963968) = Fin (3602879701896397 / 36028797018963968)"
  by (rule round_f64_nearestI[where k = 56 and m = "7205759403792794"]) simp_all

lemma f64_value_11:
  "round_f64 (1351079888211149 / 13510798882111488) = Fin (7205759403792795 / 72057594037927936)"
  by (rule round_f64_nearestI[where k = 56 and m = "7205759403792795"]) simp_all

lemma f64_value_12:
  "round_f64 (3602879701896397 / 18014398509481984) = Fin (3602879701896397 / 18014398509481984)"
  by (rule round_f64_nearestI[where k = 55 and m = "7205759403792794"]) simp_all

lemma f64_value_13:
  "round_f64 (1 / 4) = Fin (1 / 4)"
  by (rule round_f64_nearestI[where k = 54 and m = "4503599627370496"]) simp_all

lemma f64_value_14:
  "round_f64 (10808639105689191 / 36028797018963968) = Fin (1351079888211149 / 4503599627370496)"
  by (rule round_f64_tieI[where k = 54 and m = "5404319552844595"]) simp_all

lemma f64_value_15:
  "round_f64 (6004799503160661 / 18014398509481984) = Fin (6004799503160661 / 18014398509481984)"
  by (rule round_f64_nearestI[where k = 54 and m = "6004799503160661"]) simp_all

lemma f64_value_16:
  "round_f64 (1 / 3) = Fin (6004799503160661 / 18014398509481984)"
  by (rule round_f64_nearestI[where k = 54 and m = "6004799503160661"]) simp_all

lemma f64_value_17:
  "round_f64 (1 / 2) = Fin (1 / 2)"
  by (rule round_f64_nearestI[where k = 53 and m = "4503599627370496"]) simp_all

lemma f64_value_18:
  "round_f64 (10508399130531157 / 18014398509481984) = Fin (2627099782632789 / 4503599627370496)"
  by (rule round_f64_tieI[where k = 53 and m = "5254199565265578"]) simp_all

lemma f64_value_19:
  "round_f64 (6004799503160661 / 9007199254740992) = Fin (6004799503160661 / 9007199254740992)"
  by (rule round_f64_nearestI[where k = 53 and m = "6004799503160661"]) simp_all

lemma f64_value_20:
  "round_f64 (16513198633691817 / 18014398509481984) = Fin (2064149829211477 / 2251799813685248)"
  by (rule round_f64_tieI[where k = 53 and m = "8256599316845908"]) simp_all

lemma f64_value_21:
  "round_f64 (8256599316845909 / 9007199254740992) = Fin (8256599316845909 / 9007199254740992)"
  by (rule round_f64_nearestI[where k = 53 and m = "8256599316845909"]) simp_all

lemma f64_value_22:
  "round_f64 (3136435454775881 / 3377699720527872) = Fin (8363827879402349 / 9007199254740992)"
  by (rule round_f64_nearestI[where k = 53 and m = "8363827879402349"]) simp_all

lemma f64_value_23:
  "round_f64 (13 / 14) = Fin (4181913939701175 / 4503599627370496)"
  by (rule round_f64_nearestI[where k = 53 and m = "8363827879402350"]) simp_all

lemma f64_value_24:
  "round_f64 (5515760546423087 / 5515760546423086) = Fin (4503599627370497 / 4503599627370496)"
  by (rule round_f64_nearestI[where k = 52 and m = "4503599627370497"]) simp_all

lemma f64_value_25:
  "round_f64 2 = Fin 2"
  by (rule round_f64_nearestI[where k = 51 and m = "4503599627370496"]) simp_all

lemma f64_value_26:
  "round_f64 (39 / 14) = Fin (3136435454775881 / 1125899906842624)"
  by (rule round_f64_nearestI[where k = 51 and m = "6272870909551762"]) simp_all

lemma f64_value_27:
  "round_f64 3 = Fin 3"
  by (rule round_f64_nearestI[where k = 51 and m = "6755399441055744"]) simp_all

lemma f64_value_28:
  "round_f64 5 = Fin 5"
  by (rule round_f64_nearestI[where k = 50 and m = "5629499534213120"]) simp_all

lemma f64_value_29:
  "round_f64 (13 / 2) = Fin (13 / 2)"
  by (rule round_f64_nearestI[where k = 50 and m = "7318349394477056"]) simp_all

lemma f64_value_30:
  "round_f64 7 = Fin 7"
  by (rule round_f64_nearestI[where k = 50 and m = "7881299347898368"]) simp_all

lemma f64_value_31:
  "round_f64 8 = Fin 8"
  by (rule round_f64_nearestI[where k = 49 and m = "4503599627370496"]) simp_all

lemma f64_value_32:
  "round_f64 9 = Fin 9"
  by (rule round_f64_nearestI[where k = 49 and m = "5066549580791808"]) simp_all

lemma f64_value_33:
  "round_f64 15 = Fin 15"
  by (rule round_f64_nearestI[where k = 49 and m = "8444249301319680"]) simp_all

lemma f64_value_34:
  "round_f64 18 = Fin 18"
  by (rule round_f64_nearestI[where k = 48 and m = "5066549580791808"]) simp_all

lemma f64_value_35:
  "round_f64 (39 / 2) = Fin (39 / 2)"
  by (rule round_f64_nearestI[where k = 48 and m = "5488762045857792"]) simp_all

lemma f64_value_36:
  "round_f64 24 = Fin 24"
  by (rule round_f64_nearestI[where k = 48 and m = "6755399441055744"]) simp_all

lemma f64_value_37:
  "round_f64 25 = Fin 25"
  by (rule round_f64_nearestI[where k = 48 and m = "7036874417766400"]) simp_all

lemma f64_value_38:
  "round_f64 34 = Fin 34"
  by (rule round_f64_nearestI[where k = 47 and m = "4785074604081152"]) simp_all

lemma f64_value_39:
  "round_f64 39 = Fin 39"
  by (rule round_f64_nearestI[where k = 47 and m = "5488762045857792"]) simp_all

lemma f64_value_40:
  "round_f64 49 = Fin 49"
  by (rule round_f64_nearestI[where k = 47 and m = "6896136929411072"]) simp_all

lemma f64_value_41:
  "round_f64 64 = Fin 64"
  by (rule round_f64_nearestI[where k = 46 and m = "4503599627370496"]) simp_all

lemma f64_value_42:
  "round_f64 98 = Fin 98"
  by (rule round_f64_nearestI[where k = 46 and m = "6896136929411072"]) simp_all

lemma f64_value_sqrt_1:
  "round_f64 (sqrt (3 / 10384593717069655257060992658440192)) = Fin (2757880273211543 / 162259276829213363391578010288128)"
  by (rule round_f64_sqrtI[where k = 108 and m = "5515760546423086"]) (simp_all add: power2_eq_square)

lemma f64_value_sqrt_2:
  "sqrt 9 = 3"
  by (rule real_sqrt_unique) simp_all

lemma f64_value_sqrt_3:
  "sqrt 49 = 7"
  by (rule real_sqrt_unique) simp_all

lemmas f64_values = f64_value_1 f64_value_2 f64_value_3 f64_value_4 f64_value_5 f64_value_6
  f64_value_7 f64_value_8 f64_value_9 f64_value_10 f64_value_11 f64_value_12 f64_value_13
  f64_value_14 f64_value_15 f64_value_16 f64_value_17 f64_value_18 f64_value_19 f64_value_20
  f64_value_21 f64_value_22 f64_value_23 f64_value_24 f64_value_25 f64_value_26 f64_value_27
  f64_value_28 f64_value_29 f64_value_30 f64_value_31 f64_value_32 f64_value_33 f64_value_34
  f64_value_35 f64_value_36 f64_value_37 f64_value_38 f64_value_39 f64_value_40 f64_value_41
  f64_value_42 f64_value_sqrt_1 f64_value_sqrt_2 f64_value_sqrt_3

lemmas eval_fl_defs =
  extract_features_fl_def has_node_def structural_features_fl_def and_then_def
  common_neighbors_def custom_jaccard_coefficient_fl_def neighbors_def degree_def
  custom_adamic_adar_index_fl_def custom_resource_allocation_index_fl_def py_truediv_fl_def
  py_log_fl_def path_length_feature_def path_length_try_def has_edge_def remove_edge_def
  shortest_path_length_def add_edge_def add_node_def set_key_def adj_def
  attribute_features_fl_def shared_neighbors_feature_fl_def shared_neighbors_ratio_fl_def
  matching_topics_def np_logical_and_def component_def Let_def



lemma np_centre_f64_tenth:
  "np_centre_fl round_f64
     [3602879701896397 / 36028797018963968, 3602879701896397 / 36028797018963968,
      3602879701896397 / 36028797018963968]
   = [Fin (- (1 / 72057594037927936)), Fin (- (1 / 72057594037927936)),
      Fin (- (1 / 72057594037927936))]"
  by (simp add: np_centre_fl_def np_sum_fl_def fl_def np_sub_def Let_def round_f64_0
      f64_values)

lemma np_corrcoef01_f64_tenth:
  "np_corrcoef01_fl round_f64
     [3602879701896397 / 36028797018963968, 3602879701896397 / 36028797018963968,
      3602879701896397 / 36028797018963968]
     [3602879701896397 / 36028797018963968, 3602879701896397 / 36028797018963968,
      3602879701896397 / 36028797018963968]
   = Inr (Some 1)"
  unfolding np_corrcoef01_fl_def np_centre_f64_tenth
  by (simp add: np_cov_entry_fl_def np_row_dot_fl_def
      np_sum_fl_def fl_def Let_def round_f64_0 f64_values)

text \<open>
  The resource allocation index of a pair with the common neighbours 3, 4 and 5, of degrees
  3, 3 and 4: node 1 lists them in this order and node 2 in the opposite one, and the two
  rounded sums differ in the last place. The Adamic-Adar index is accumulated by the same
  loop.
\<close>

lemma resource_allocation_f64_order:
  "custom_resource_allocation_index_fl round_f64
     [(1, [3, 4, 5]), (3, [1, 2, 4]), (4, [1, 2, 3]), (5, [1, 2, 6, 7]), (2, [5, 4, 3]),
      (6, [5]), (7, [5])] 1 2
     = Inr (Fin (8256599316845909 / 9007199254740992)) \<and>
   custom_resource_allocation_index_fl round_f64
     [(1, [3, 4, 5]), (3, [1, 2, 4]), (4, [1, 2, 3]), (5, [1, 2, 6, 7]), (2, [5, 4, 3]),
      (6, [5]), (7, [5])] 2 1
     = Inr (Fin (2064149829211477 / 2251799813685248))"
  by (simp add: custom_resource_allocation_index_fl_def common_neighbors_def degree_def
      and_then_def py_truediv_fl_def fl_def round_f64_0 f64_values)

lemma cosine_similarity_fl_ok:
  "length u = length v \<Longrightarrow> \<exists>c. cosine_similarity_fl rnd u v = Inr c"
  by (simp add: cosine_similarity_fl_def np_dot_fl_def and_then_def Let_def)

text \<open>
  In exact arithmetic the correlation entry is the sample correlation coefficient where that
  is defined and 0 elsewhere: \<^verbatim>\<open>np.corrcoef\<close> gives \<^verbatim>\<open>nan\<close> exactly in the undefined cases.
\<close>

lemma correlation_feature_exact:
  "correlation_feature u v = (if correlation_defined u v then pearson_r u v else 0) \<and>
   (length u = length v \<longrightarrow>
      np_corrcoef01 u v = Inr (if correlation_defined u v then Some (pearson_r u v) else None)) \<and>
   (wf_graph G \<and> has_node G a \<and> has_node G b \<and> node_features a = Some u \<and>
    node_features b = Some v \<and> length u = length v \<longrightarrow>
      (\<exists>fs G'. extract_features G node_features a b = (Inr fs, G') \<and> length fs = 10 \<and>
         fs ! 7 = (if correlation_defined u v then pearson_r u v else 0)))"
proof -
  have 3: "\<exists>fs G'. extract_features G node_features a b = (Inr fs, G') \<and> length fs = 10 \<and>
         fs ! 7 = (if correlation_defined u v then pearson_r u v else 0)"
    if h: "wf_graph G" "has_node G a" "has_node G b" "node_features a = Some u"
      "node_features b = Some v" "length u = length v"
  proof -
    from path_length_feature_value[OF h(1-3)] obtain pl G1 where
      p: "path_length_feature G a b = (Inr pl, G1)" by blast
    from attribute_features_present[OF h(4-6)] obtain c m where
      t: "attribute_features node_features a b = Inr [c, correlation_feature u v, m]" by blast
    show ?thesis
      unfolding extract_features_nodes[OF h(1-3) p t]
      by (simp add: correlation_feature_value)
  qed
  show ?thesis
    using 3 by (simp add: correlation_feature_value np_corrcoef01_value)
qed

section \<open>The claims\<close>



text \<open>
  C9. For a node \<open>n\<close> of the graph that has no self-loop, \<open>extract_features G n n\<close>
  returns ten features and leaves the graph as it is; no edge is taken out, and the shortest
  path length (position 5) is 0, not the sentinel \<open>-1\<close>.
\<close>

theorem self_pair_distance_zero:
  assumes "wf_graph G" "wf_attrs node_features" "has_node G n" "\<not> has_edge G n n"
  shows "\<exists>fs. extract_features G node_features n n = (Inr fs, G) \<and> length fs = 10 \<and> fs ! 5 = 0"
proof -
  have p: "path_length_feature G n n = (Inr 0, G)"
    using assms(3,4)
    by (simp add: path_length_feature_no_edge shortest_path_length_self)
  from attribute_features_ok[OF assms(2)] obtain x y z where
    t: "attribute_features node_features n n = Inr [x, y, z]" by blast
  show ?thesis
    unfolding extract_features_nodes[OF assms(1,3,3) p t] by simp
qed

theorem self_pair_distance_zero_witness:
  "wf_graph [(1, [2]), (2, [1])] \<and> wf_attrs (\<lambda>n. None) \<and> has_node [(1, [2]), (2, [1])] 1 \<and>
   \<not> has_edge [(1, [2]), (2, [1])] 1 1 \<and>
   extract_features [(1, [2]), (2, [1])] (\<lambda>n. None) 1 1 =
     (Inr [1, 1, 1, 0, 1, 0, 0, 0, 0, 1], [(1, [2]), (2, [1])])"
proof -
  have g: "wf_graph [(1, [2]), (2, [1])]"
    by (simp add: wf_graph_def has_edge_def)
  have a: "wf_attrs (\<lambda>n. None)"
    by (simp add: wf_attrs_def)
  have n: "has_node [(1, [2]), (2, [1])] 1"
    by (simp add: has_node_def)
  have e: "\<not> has_edge [(1, [2]), (2, [1])] 1 1"
    by (simp add: has_edge_def)
  have v: "extract_features [(1, [2]), (2, [1])] (\<lambda>n. None) 1 1 =
     (Inr [1, 1, 1, 0, 1, 0, 0, 0, 0, 1], [(1, [2]), (2, [1])])"
    by (simp add: eval_defs)
  from self_pair_distance_zero[OF g a n e] g a n e v show ?thesis
    by simp
qed

text \<open>
  C3. For two nodes of the graph the shortest path length (position 5) is the distance in
  the graph without the edge \<open>(src, dst)\<close> when that pair is an edge, and the distance in
  the graph itself otherwise (\<open>-1\<close> when there is no path). The graph searched in the
  first case has exactly the edges of \<open>G\<close> but the one between \<open>src\<close> and \<open>dst\<close>. On
  the triangle with the edges (1,2), (2,3), (1,3) the pair (1,3) gets the length 2.
\<close>

theorem shortest_path_leakage_safe:
  assumes "wf_graph G" "wf_attrs node_features" "has_node G src" "has_node G dst"
  shows "(\<exists>fs G'. extract_features G node_features src dst = (Inr fs, G') \<and>
            fs ! 5 = (if has_edge G src dst
                      then distance_or_sentinel (without_edge G src dst) src dst
                      else distance_or_sentinel G src dst)) \<and>
         (\<forall>u v. has_edge (without_edge G src dst) u v \<longleftrightarrow>
                  has_edge G u v \<and> {u, v} \<noteq> {src, dst}) \<and>
         (\<exists>fs G'. extract_features (add_edge (add_edge (add_edge [] 1 2) 2 3) 1 3) (\<lambda>n. None) 1 3
              = (Inr fs, G') \<and> fs ! 5 = 2)"
proof -
  from extract_features_value[OF assms] have
    "\<exists>fs G'. extract_features G node_features src dst = (Inr fs, G') \<and>
            fs ! 5 = (if has_edge G src dst
                      then distance_or_sentinel (without_edge G src dst) src dst
                      else distance_or_sentinel G src dst)"
    by auto
  moreover have "\<exists>fs G'. extract_features (add_edge (add_edge (add_edge [] 1 2) 2 3) 1 3) (\<lambda>n. None) 1 3
              = (Inr fs, G') \<and> fs ! 5 = 2"
    by (simp add: eval_defs)
  ultimately show ?thesis
    by (simp add: has_edge_without_edge)
qed

theorem shortest_path_leakage_safe_witness:
  "wf_graph [(1, [2, 3]), (2, [1, 3]), (3, [2, 1])] \<and> wf_attrs (\<lambda>n. None) \<and>
   has_node [(1, [2, 3]), (2, [1, 3]), (3, [2, 1])] 1 \<and>
   has_node [(1, [2, 3]), (2, [1, 3]), (3, [2, 1])] 3 \<and>
   has_edge [(1, [2, 3]), (2, [1, 3]), (3, [2, 1])] 1 3 \<and>
   distance_or_sentinel (without_edge [(1, [2, 3]), (2, [1, 3]), (3, [2, 1])] 1 3) 1 3 = 2 \<and>
   (\<exists>fs G'. extract_features [(1, [2, 3]), (2, [1, 3]), (3, [2, 1])] (\<lambda>n. None) 1 3 = (Inr fs, G')
       \<and> fs ! 5 = 2)"
proof -
  let ?G = "[(1, [2, 3]), (2, [1, 3]), (3, [2, 1])] :: graph"
  have g: "wf_graph ?G"
    by (simp add: wf_graph_def has_edge_def)
  have a: "wf_attrs (\<lambda>n. None)"
    by (simp add: wf_attrs_def)
  have n: "has_node ?G 1" "has_node ?G 3"
    by (simp_all add: has_node_def)
  have e: "has_edge ?G 1 3"
    by (simp add: has_edge_def)
  have d: "distance_or_sentinel (without_edge ?G 1 3) 1 3 = 2"
    by (simp add: distance_or_sentinel_def without_edge_def eval_defs)
  from shortest_path_leakage_safe[OF g a n] g a n e d show ?thesis
    by simp
qed

text \<open>
  C7. With an attribute vector missing, positions 6, 7 and 8 are 0 and the structural
  features and the shortest path length are computed from the graph; the shared neighbours
  ratio is not. With a self-loop at 1, the edge (1,2) and no vector for node 2, the ratio of
  the neighbour sets of the graph is \<open>1/2\<close>, but the call for (1,2) reports 0 at
  position 9: the ratio is taken after the shortest path query has removed the edge and not
  put it back (see C1).
\<close>

theorem absent_attributes_ratio_after_removal:
  "wf_graph (add_edge (add_edge [] 1 1) 1 2) \<and>
   shared_neighbors_ratio (add_edge (add_edge [] 1 1) 1 2) 1 2 = Inr (1 / 2) \<and>
   fst (extract_features (add_edge (add_edge [] 1 1) 1 2)
          (\<lambda>n. if n = 1 then Some [1, 0] else None) 1 2)
     = Inr [0, 1 / 2, 3, 0, 0, - 1, 0, 0, 0, 0]"
  by (simp add: eval_defs wf_graph_def)

theorem absent_attributes_ratio_after_removal_witness:
  "fst (extract_features (add_edge (add_edge [] 1 1) 1 2)
          (\<lambda>n. if n = 1 then Some [1, 0] else None) 1 2)
     = Inr [0, 1 / 2, 3, 0, 0, - 1, 0, 0, 0, 0]"
  using absent_attributes_ratio_after_removal by blast

text \<open>
  C10. In a well-formed graph (symmetric adjacency), every common neighbour \<open>w\<close> of two
  distinct nodes \<open>a\<close> and \<open>b\<close> is adjacent to both and has degree at least 2. So for
  \<open>a \<noteq> b\<close> the tests \<open>degree > 1\<close> of Adamic-Adar and \<open>degree > 0\<close> of resource allocation
  leave out no common neighbour: both indices are the sums over all common neighbours.
\<close>

theorem common_neighbor_degree_at_least_two:
  assumes "wf_graph G" "a \<noteq> b"
  shows "(\<forall>w. w \<in> set (adj G a) \<and> w \<in> set (adj G b) \<longrightarrow>
            has_edge G w a \<and> has_edge G w b \<and> (\<exists>d. degree G w = Inr d \<and> 2 \<le> d)) \<and>
         (has_node G a \<and> has_node G b \<longrightarrow>
            custom_adamic_adar_index G a b =
              Inr (\<Sum>w \<in> cn_set G a b. 1 / ln (real (deg G w))) \<and>
            custom_resource_allocation_index G a b =
              Inr (\<Sum>w \<in> cn_set G a b. 1 / real (deg G w)))"
proof -
  have d: "has_edge G w a \<and> has_edge G w b \<and> (\<exists>d. degree G w = Inr d \<and> 2 \<le> d)"
    if w: "w \<in> set (adj G a)" "w \<in> set (adj G b)" for w
    using common_neighbour_degree[OF assms w] w assms(1)
    by (simp add: has_edge_adj adj_sym[of G w])
  have c: "2 \<le> deg G w" if "w \<in> cn_set G a b" for w
  proof -
    from that have w: "w \<in> set (adj G a)" "w \<in> set (adj G b)" by (auto simp: cn_set_def)
    from d[OF w] has_node_neighbour[OF assms(1) w(1)] show ?thesis
      by (auto simp: degree_deg)
  qed
  have f1: "{w \<in> cn_set G a b. deg G w > 1} = cn_set G a b"
    using c by force
  have f0: "{w \<in> cn_set G a b. deg G w > 0} = cn_set G a b"
    using c by force
  have s: "custom_adamic_adar_index G a b =
              Inr (\<Sum>w \<in> cn_set G a b. 1 / ln (real (deg G w))) \<and>
            custom_resource_allocation_index G a b =
              Inr (\<Sum>w \<in> cn_set G a b. 1 / real (deg G w))"
    if "has_node G a" "has_node G b"
    by (simp only: adamic_adar_sum[OF that assms(1)] resource_allocation_sum[OF that assms(1)]
        f1 f0 simp_thms)
  show ?thesis
    using d s by blast
qed

theorem common_neighbor_degree_at_least_two_witness:
  "wf_graph [(1, [2]), (2, [1, 3]), (3, [2])] \<and> (1 :: node) \<noteq> 3 \<and>
   2 \<in> set (adj [(1, [2]), (2, [1, 3]), (3, [2])] 1) \<and>
   2 \<in> set (adj [(1, [2]), (2, [1, 3]), (3, [2])] 3) \<and>
   degree [(1, [2]), (2, [1, 3]), (3, [2])] 2 = Inr 2 \<and>
   custom_adamic_adar_index [(1, [2]), (2, [1, 3]), (3, [2])] 1 3 = Inr (1 / ln 2) \<and>
   custom_resource_allocation_index [(1, [2]), (2, [1, 3]), (3, [2])] 1 3 = Inr (1 / 2)"
proof -
  let ?G = "[(1, [2]), (2, [1, 3]), (3, [2])] :: graph"
  have g: "wf_graph ?G"
    by (simp add: wf_graph_def has_edge_def)
  have ne: "(1 :: node) \<noteq> 3" by simp
  have n: "has_node ?G 1" "has_node ?G 3"
    by (simp_all add: has_node_def)
  have m: "2 \<in> set (adj ?G 1)" "2 \<in> set (adj ?G 3)"
    by (simp_all add: adj_def)
  have cs: "cn_set ?G 1 3 = {2}"
    by (auto simp: cn_set_def adj_def)
  have dg: "deg ?G 2 = 2"
    by (simp add: deg_def adj_def)
  from common_neighbor_degree_at_least_two[OF g ne] n m g
  show ?thesis
    by (simp add: cs dg degree_def)
qed



text \<open>
  C1. The edge is not put back when the query finds no path. On the graph with the single
  edge (1,2), the call for the pair (1,2) takes the edge out, \<open>shortest_path_length\<close> raises
  \<open>NetworkXNoPath\<close>, the handler appends \<open>-1\<close>, and \<open>add_edge\<close> is never reached: the
  edge that was present before the call is absent after it. (When the query returns a
  length, every edge is kept: \<open>edges_kept_unless_no_path\<close>.)
\<close>

theorem edge_lost_on_no_path:
  "has_edge (add_edge [] 1 2) 1 2 \<and>
   extract_features (add_edge [] 1 2) (\<lambda>n. None) 1 2 =
     (Inr [0, 0, 1, 0, 0, - 1, 0, 0, 0, 0], [(1, []), (2, [])]) \<and>
   \<not> has_edge (snd (extract_features (add_edge [] 1 2) (\<lambda>n. None) 1 2)) 1 2"
  by (simp add: eval_defs)

theorem edge_lost_on_no_path_witness:
  "\<not> has_edge (snd (extract_features (add_edge [] 1 2) (\<lambda>n. None) 1 2)) 1 2"
  using edge_lost_on_no_path by blast

text \<open>
  C4. The shared neighbours ratio is computed after the shortest path query, on the graph
  that query leaves behind. With a self-loop at 1 and the edge (1,2), the Jaccard coefficient
  of the pair (1,2) is \<open>1/2\<close>; the query then takes the edge out for good (see C1), and
  the shared neighbours ratio, computed on what is left, is 0. (On one and the same graph the
  two are equal, \<open>shared_neighbors_value\<close> and \<open>custom_jaccard_value\<close>; and on a graph
  without self-loops the two features agree after every call,
  \<open>shared_ratio_jaccard_loop_free\<close>.)
\<close>

theorem shared_ratio_differs_from_jaccard:
  "wf_graph (add_edge (add_edge [] 1 1) 1 2) \<and>
   extract_features (add_edge (add_edge [] 1 1) 1 2) (\<lambda>n. None) 1 2 =
     (Inr [0, 1 / 2, 3, 0, 0, - 1, 0, 0, 0, 0], [(1, [1]), (2, [])])"
  by (simp add: eval_defs wf_graph_def)

theorem shared_ratio_differs_from_jaccard_witness:
  "\<exists>fs G'. extract_features (add_edge (add_edge [] 1 1) 1 2) (\<lambda>n. None) 1 2 = (Inr fs, G') \<and>
     fs ! 9 \<noteq> fs ! 1"
  using shared_ratio_differs_from_jaccard by simp

text \<open>
  C8. A constant vector is not recognised when its mean is not exact. For the vector of three
  entries \<open>0.1\<close> (the double \<open>3602879701896397 / 2\<^sup>5\<^sup>5\<close>) the sample correlation is
  undefined, the variance being zero. In binary64 the sum of the three entries is rounded,
  the mean comes out one unit in the last place above the entries, the deviations are
  \<open>- 2\<^sup>-\<^sup>5\<^sup>6\<close> and not 0, \<^verbatim>\<open>np.corrcoef\<close> returns \<open>1\<close> and not \<^verbatim>\<open>nan\<close>, and the test
  \<^verbatim>\<open>np.isnan\<close> lets it through: position 7 is \<open>1\<close>, not \<open>0\<close>. (In exact arithmetic the
  entry is 0 in every undefined case: \<open>correlation_feature_exact\<close>.)
\<close>

theorem constant_vectors_correlation_one:
  "round_f64 (1 / 10) = Fin (3602879701896397 / 36028797018963968) \<and>
   \<not> correlation_defined
     [3602879701896397 / 36028797018963968, 3602879701896397 / 36028797018963968,
      3602879701896397 / 36028797018963968]
     [3602879701896397 / 36028797018963968, 3602879701896397 / 36028797018963968,
      3602879701896397 / 36028797018963968] \<and>
   np_centre_fl round_f64
     [3602879701896397 / 36028797018963968, 3602879701896397 / 36028797018963968,
      3602879701896397 / 36028797018963968]
     = [Fin (- (1 / 2 ^ 56)), Fin (- (1 / 2 ^ 56)), Fin (- (1 / 2 ^ 56))] \<and>
   component 7 (extract_features_fl round_f64 [(1, []), (2, [])]
     (map_of
       [(1, [3602879701896397 / 36028797018963968, 3602879701896397 / 36028797018963968,
             3602879701896397 / 36028797018963968]),
        (2, [3602879701896397 / 36028797018963968, 3602879701896397 / 36028797018963968,
             3602879701896397 / 36028797018963968])]) 1 2)
     = Some (Fin 1)"
proof -
  let ?d = "3602879701896397 / 36028797018963968 :: real"
  obtain c where c: "cosine_similarity_fl round_f64 [?d, ?d, ?d] [?d, ?d, ?d] = Inr c"
    using cosine_similarity_fl_ok[of "[?d, ?d, ?d]" "[?d, ?d, ?d]" round_f64] by auto
  have 1: "round_f64 (1 / 10) = Fin ?d"
    by (simp add: f64_values)
  have 2: "\<not> correlation_defined [?d, ?d, ?d] [?d, ?d, ?d]"
    by (simp add: correlation_defined_def inner_def centred_def mean_def)
  have 3: "component 7 (extract_features_fl round_f64 [(1, []), (2, [])]
     (map_of [(1, [?d, ?d, ?d]), (2, [?d, ?d, ?d])]) 1 2) = Some (Fin 1)"
    by (simp add: eval_fl_defs c correlation_feature_fl_def np_corrcoef01_f64_tenth)
  have 4: "np_centre_fl round_f64 [?d, ?d, ?d]
     = [Fin (- (1 / 2 ^ 56)), Fin (- (1 / 2 ^ 56)), Fin (- (1 / 2 ^ 56))]"
    by (simp add: np_centre_f64_tenth)
  from 1 2 3 4 show ?thesis by blast
qed

theorem constant_vectors_correlation_one_witness:
  "component 7 (extract_features_fl round_f64 [(1, []), (2, [])]
     (map_of
       [(1, [3602879701896397 / 36028797018963968, 3602879701896397 / 36028797018963968,
             3602879701896397 / 36028797018963968]),
        (2, [3602879701896397 / 36028797018963968, 3602879701896397 / 36028797018963968,
             3602879701896397 / 36028797018963968])]) 1 2)
     = Some (Fin 1)"
  using constant_vectors_correlation_one by blast




end
